theory Spec2Isabelle
  imports Complex_Main "HOL-Library.Sublist"
begin

section \<open>Data model\<close>

text \<open>
  The program keeps its data in Python dictionaries and lists. A transaction is the
  dictionary built by \<open>add_transaction\<close>, a block the dictionary built by \<open>new_block\<close>.
  The \<open>previous_hash\<close> entry of a block holds the integer \<open>1\<close> in the genesis block and a
  hexadecimal string in every other block, so the field has a type of its own.
\<close>

record transaction =
  sender :: string
  recipient :: string
  amount :: int

datatype hash_value = HInt int | HStr string

record block =
  index :: int
  timestamp :: real
  transactions :: "transaction list"
  block_proof :: int
  previous_hash :: hash_value

text \<open>The object state of class \<open>Blockchain\<close>: the three attributes set by \<open>__init__\<close>.\<close>

record blockchain =
  chain :: "block list"
  current_transactions :: "transaction list"
  nodes :: "string set"

text \<open>The exceptions the modelled code can raise.\<close>

datatype error = IndexError | KeyError | ValueError | ConnectionError

text \<open>
  What \<open>requests.get\<close> gives for one peer: it raises when the peer cannot be reached,
  otherwise there is a response with a status code and a body. \<open>response.json()\<close> raises on
  a body that is not JSON, and the subscripts \<open>['length']\<close> and \<open>['chain']\<close> raise on a JSON
  object without these keys; a body with both keys carries the reported length and the
  list of blocks.
\<close>

datatype body = NotJson | MissingKey | Payload int "block list"

datatype response = Unreachable | Reply int body

section \<open>Library functions taken as parameters\<close>

text \<open>
  \<open>hashlib.sha256(bytes).hexdigest()\<close>, \<open>json.dumps(block, sort_keys=True).encode()\<close>,
  \<open>urlparse(address).netloc\<close>, \<open>requests.get\<close> and the iteration order of a Python set
  belong to libraries and to the interpreter, not to the program. Every definition below
  takes the ones it calls as arguments, and every theorem holds for all of them.
\<close>

type_synonym digest = "string \<Rightarrow> string"
type_synonym dumps = "block \<Rightarrow> string"

section \<open>Formatting an integer\<close>

text \<open>The f-string \<open>f'{n}'\<close> of a Python integer: its decimal digits, after a minus sign when negative.\<close>

definition digit_char :: "nat \<Rightarrow> char" where
  "digit_char d = ''0123456789'' ! d"

function nat_digits :: "nat \<Rightarrow> string" where
  "nat_digits n = (if n < 10 then [digit_char n] else nat_digits (n div 10) @ [digit_char (n mod 10)])"
  by pat_completeness auto
termination
  by (relation "measure id") auto

declare nat_digits.simps [simp del]

definition format_int :: "int \<Rightarrow> string" where
  "format_int i = (if i < 0 then CHR ''-'' # nat_digits (nat (- i)) else nat_digits (nat i))"

section \<open>Hashing and proof of work\<close>

definition hash :: "digest \<Rightarrow> dumps \<Rightarrow> block \<Rightarrow> string" where
  "hash sha256 json_dumps b = (let block_string = json_dumps b in sha256 block_string)"

definition valid_proof :: "digest \<Rightarrow> int \<Rightarrow> int \<Rightarrow> bool" where
  "valid_proof sha256 last_proof p =
     (let guess = format_int last_proof @ format_int p;
          guess_hash = sha256 guess
      in take 4 guess_hash = ''0000'')"

text \<open>
  The \<open>while\<close> loop of \<open>proof_of_work\<close>. Nothing bounds the search, so the loop is a partial
  function: \<open>None\<close> stands for a search that never ends.
\<close>

partial_function (option) proof_of_work_loop :: "digest \<Rightarrow> int \<Rightarrow> int \<Rightarrow> int option" where
  "proof_of_work_loop sha256 last_proof p =
     (if valid_proof sha256 last_proof p = False
      then proof_of_work_loop sha256 last_proof (p + 1)
      else Some p)"

definition proof_of_work :: "digest \<Rightarrow> int \<Rightarrow> int option" where
  "proof_of_work sha256 last_proof = proof_of_work_loop sha256 last_proof 0"

section \<open>The ledger\<close>

text \<open>Python's truth value of a supplied \<open>previous_hash\<close>: \<open>0\<close> and the empty string are false.\<close>

fun truthy :: "hash_value \<Rightarrow> bool" where
  "truthy (HInt n) = (n \<noteq> 0)"
| "truthy (HStr s) = (s \<noteq> [])"

text \<open>
  \<open>new_block\<close>. The argument \<open>now\<close> is the value of \<open>time()\<close>. The expression
  \<open>previous_hash or self.hash(self.chain[-1])\<close> evaluates its right operand only when the
  left one is \<open>None\<close> or false, and \<open>self.chain[-1]\<close> raises on an empty chain, before any
  attribute is assigned.
\<close>

definition new_block ::
  "digest \<Rightarrow> dumps \<Rightarrow> real \<Rightarrow> int \<Rightarrow> hash_value option \<Rightarrow> blockchain \<Rightarrow> (error + block) \<times> blockchain" where
  "new_block sha256 json_dumps now p previous_hash_arg s =
     (let tip_hash = (if chain s = [] then Inl IndexError
                      else Inr (HStr (hash sha256 json_dumps (last (chain s)))));
          prev = (case previous_hash_arg of
                    None \<Rightarrow> tip_hash
                  | Some v \<Rightarrow> if truthy v then Inr v else tip_hash)
      in case prev of
           Inl e \<Rightarrow> (Inl e, s)
         | Inr h \<Rightarrow>
             (let b = \<lparr>index = int (length (chain s)) + 1,
                       timestamp = now,
                       transactions = current_transactions s,
                       block_proof = p,
                       previous_hash = h\<rparr>
              in (Inr b, s\<lparr>current_transactions := [], chain := chain s @ [b]\<rparr>)))"

text \<open>\<open>__init__\<close>: three empty attributes, then the genesis block.\<close>

definition empty_blockchain :: blockchain where
  "empty_blockchain = \<lparr>chain = [], current_transactions = [], nodes = {}\<rparr>"

definition init :: "digest \<Rightarrow> dumps \<Rightarrow> real \<Rightarrow> blockchain" where
  "init sha256 json_dumps now = snd (new_block sha256 json_dumps now 100 (Some (HInt 1)) empty_blockchain)"

definition register_node :: "(string \<Rightarrow> string) \<Rightarrow> string \<Rightarrow> blockchain \<Rightarrow> blockchain" where
  "register_node netloc address s = s\<lparr>nodes := insert (netloc address) (nodes s)\<rparr>"

text \<open>
  \<open>add_transaction\<close> appends first and reads \<open>self.last_block['index']\<close> afterwards, so
  on an empty chain the transaction is in the pool when \<open>IndexError\<close> is raised.
\<close>

definition add_transaction ::
  "string \<Rightarrow> string \<Rightarrow> int \<Rightarrow> blockchain \<Rightarrow> (error + int) \<times> blockchain" where
  "add_transaction sndr rcpt amt s =
     (let s' = s\<lparr>current_transactions :=
                   current_transactions s @ [\<lparr>sender = sndr, recipient = rcpt, amount = amt\<rparr>]\<rparr>
      in if chain s' = [] then (Inl IndexError, s')
         else (Inr (index (last (chain s')) + 1), s'))"

section \<open>Chain validation\<close>

text \<open>
  The \<open>while\<close> loop of \<open>valid_chain\<close>, with its two variables \<open>last_block\<close> and
  \<open>current_index\<close>. The \<open>print\<close> calls write to standard output only and are left out.
\<close>

function valid_chain_loop :: "digest \<Rightarrow> dumps \<Rightarrow> block list \<Rightarrow> block \<Rightarrow> nat \<Rightarrow> bool" where
  "valid_chain_loop sha256 json_dumps c last_block current_index =
     (if current_index < length c then
        (let b = c ! current_index in
         if previous_hash b \<noteq> HStr (hash sha256 json_dumps last_block) then False
         else if \<not> valid_proof sha256 (block_proof last_block) (block_proof b) then False
         else valid_chain_loop sha256 json_dumps c b (current_index + 1))
      else True)"
  by pat_completeness auto
termination
  by (relation "measure (\<lambda>(sha256, json_dumps, c, last_block, current_index). length c - current_index)") auto

declare valid_chain_loop.simps [simp del]

text \<open>\<open>chain[0]\<close> raises on an empty list.\<close>

definition valid_chain :: "digest \<Rightarrow> dumps \<Rightarrow> block list \<Rightarrow> error + bool" where
  "valid_chain sha256 json_dumps c =
     (case c of
        [] \<Rightarrow> Inl IndexError
      | last_block # _ \<Rightarrow> Inr (valid_chain_loop sha256 json_dumps c last_block 1))"

section \<open>Consensus\<close>

text \<open>
  The \<open>for\<close> loop of \<open>resolve_conflicts\<close> over the peers in the order the set yields them,
  with its two variables \<open>max_length\<close> and \<open>new_chain\<close>. In \<open>length > max_length and
  self.valid_chain(chain)\<close> the validator runs only when the comparison holds.
\<close>

fun resolve_loop ::
  "digest \<Rightarrow> dumps \<Rightarrow> (string \<Rightarrow> response) \<Rightarrow> string list \<Rightarrow> int \<times> block list option
     \<Rightarrow> error + (int \<times> block list option)" where
  "resolve_loop sha256 json_dumps requests_get [] (max_length, new_chain) = Inr (max_length, new_chain)"
| "resolve_loop sha256 json_dumps requests_get (node # neighbours) (max_length, new_chain) =
     (case requests_get (''http://'' @ node @ ''/chain'') of
        Unreachable \<Rightarrow> Inl ConnectionError
      | Reply status_code content \<Rightarrow>
          if status_code = 200 then
            (case content of
               NotJson \<Rightarrow> Inl ValueError
             | MissingKey \<Rightarrow> Inl KeyError
             | Payload len c \<Rightarrow>
                 if len > max_length then
                   (case valid_chain sha256 json_dumps c of
                      Inl e \<Rightarrow> Inl e
                    | Inr ok \<Rightarrow>
                        if ok then resolve_loop sha256 json_dumps requests_get neighbours (len, Some c)
                        else resolve_loop sha256 json_dumps requests_get neighbours (max_length, new_chain))
                 else resolve_loop sha256 json_dumps requests_get neighbours (max_length, new_chain))
          else resolve_loop sha256 json_dumps requests_get neighbours (max_length, new_chain))"

text \<open>
  \<open>resolve_conflicts\<close>. The test \<open>if new_chain:\<close> is Python's truth value of the variable:
  false for \<open>None\<close> and for an empty list. \<open>self.chain\<close> is assigned after the loop only, so
  an exception raised inside the loop leaves the object as it was.
\<close>

definition resolve_conflicts ::
  "digest \<Rightarrow> dumps \<Rightarrow> (string \<Rightarrow> response) \<Rightarrow> (string set \<Rightarrow> string list) \<Rightarrow> blockchain
     \<Rightarrow> (error + bool) \<times> blockchain" where
  "resolve_conflicts sha256 json_dumps requests_get iter s =
     (let neighbours = iter (nodes s);
          max_length = int (length (chain s))
      in case resolve_loop sha256 json_dumps requests_get neighbours (max_length, None) of
           Inl e \<Rightarrow> (Inl e, s)
         | Inr (max_length', new_chain) \<Rightarrow>
             (case new_chain of
                None \<Rightarrow> (Inr False, s)
              | Some c \<Rightarrow> if c \<noteq> [] then (Inr True, s\<lparr>chain := c\<rparr>) else (Inr False, s)))"

section \<open>Mining\<close>

text \<open>
  The request handler \<open>mine\<close>: the tip's proof, the search, the reward transaction, the new
  block. \<open>None\<close> is a search that never ends.
\<close>

definition mine ::
  "digest \<Rightarrow> dumps \<Rightarrow> string \<Rightarrow> real \<Rightarrow> blockchain \<Rightarrow> ((error + block) \<times> blockchain) option" where
  "mine sha256 json_dumps node_identifier now s =
     (if chain s = [] then Some (Inl IndexError, s)
      else
        (let last_proof = block_proof (last (chain s)) in
         case proof_of_work sha256 last_proof of
           None \<Rightarrow> None
         | Some p \<Rightarrow>
             (case add_transaction ''0'' node_identifier 1 s of
                (Inl e, s1) \<Rightarrow> Some (Inl e, s1)
              | (Inr i, s1) \<Rightarrow> Some (new_block sha256 json_dumps now p None s1))))"

text \<open>
  A run of the node: requests served one after the other on the one global object. A
  request whose handler raises leaves the object as the handler left it.
\<close>

datatype request = Submit string string int | Mine real

fun serve :: "digest \<Rightarrow> dumps \<Rightarrow> string \<Rightarrow> request \<Rightarrow> blockchain \<Rightarrow> blockchain option" where
  "serve sha256 json_dumps node_identifier (Submit sndr rcpt amt) s =
     Some (snd (add_transaction sndr rcpt amt s))"
| "serve sha256 json_dumps node_identifier (Mine now) s =
     map_option snd (mine sha256 json_dumps node_identifier now s)"

fun run :: "digest \<Rightarrow> dumps \<Rightarrow> string \<Rightarrow> request list \<Rightarrow> blockchain \<Rightarrow> blockchain option" where
  "run sha256 json_dumps node_identifier [] s = Some s"
| "run sha256 json_dumps node_identifier (r # rs) s =
     (case serve sha256 json_dumps node_identifier r s of
        None \<Rightarrow> None
      | Some s' \<Rightarrow> run sha256 json_dumps node_identifier rs s')"

section \<open>Sample library functions for the concrete instances\<close>

text \<open>
  The theorems below hold for every digest and every serialisation. Their concrete
  instances need some digest to compute with: a small checksum that answers with a digest
  starting with four zeros exactly when the byte sum of its input is a multiple of five, and
  a serialisation that writes a block's index and proof.
\<close>

definition demo_sha256 :: digest where
  "demo_sha256 s = (if (\<Sum>c\<leftarrow>s. of_char c :: nat) mod 5 = 0 then ''0000c0de'' else ''f00dc0de'')"

definition demo_dumps :: dumps where
  "demo_dumps b = format_int (index b) @ '','' @ format_int (block_proof b)"

text \<open>A genesis block, the block mined on it with the sample digest, and a block with a proof that fails.\<close>

definition demo_genesis :: block where
  "demo_genesis = \<lparr>index = 1, timestamp = 0, transactions = [], block_proof = 100, previous_hash = HInt 1\<rparr>"

definition demo_block2 :: block where
  "demo_block2 = \<lparr>index = 2, timestamp = 1,
      transactions = [\<lparr>sender = ''0'', recipient = ''node'', amount = 1\<rparr>],
      block_proof = 2, previous_hash = HStr ''f00dc0de''\<rparr>"

definition demo_forged :: block where
  "demo_forged = \<lparr>index = 2, timestamp = 1, transactions = [], block_proof = 1, previous_hash = HStr ''f00dc0de''\<rparr>"

text \<open>
  The invariants of the chain: it is not empty, every block from the second on carries
  the hash of the block before it and a proof that is valid after that block's proof, and
  the blocks are numbered from 1 without gaps.
\<close>

definition ledger_invariant :: "digest \<Rightarrow> dumps \<Rightarrow> block list \<Rightarrow> bool" where
  "ledger_invariant sha256 json_dumps c \<longleftrightarrow>
     c \<noteq> []
     \<and> (\<forall>i. Suc i < length c \<longrightarrow>
            previous_hash (c ! Suc i) = HStr (hash sha256 json_dumps (c ! i))
            \<and> valid_proof sha256 (block_proof (c ! i)) (block_proof (c ! Suc i)))
     \<and> (\<forall>i. i < length c \<longrightarrow> index (c ! i) = int i + 1)"


text \<open>The ledger after mining once on a new ledger and submitting one transaction.\<close>

definition demo_ledger :: blockchain where
  "demo_ledger = \<lparr>chain = [demo_genesis, demo_block2],
      current_transactions = [\<lparr>sender = ''alice'', recipient = ''bob'', amount = 5\<rparr>],
      nodes = {}\<rparr>"

text \<open>
  A block numbered 5 that stands alone, the ledger that holds it as its whole chain, a third
  block, and a stub of the network: one peer that answers with the lone block and a
  reported length of 3, one that answers 503, one that answers with a chain of three blocks,
  and peers that cannot be reached. The stub of the set iteration yields the known peers in
  a fixed order.
\<close>

definition demo_stray :: block where
  "demo_stray = \<lparr>index = 5, timestamp = 0, transactions = [], block_proof = 100, previous_hash = HInt 1\<rparr>"

definition demo_block3 :: block where
  "demo_block3 = \<lparr>index = 3, timestamp = 2, transactions = [], block_proof = 2, previous_hash = HStr ''f00dc0de''\<rparr>"

definition demo_adopted :: blockchain where
  "demo_adopted = \<lparr>chain = [demo_stray], current_transactions = [], nodes = {''peer:5000''}\<rparr>"

definition demo_peered :: blockchain where
  "demo_peered = demo_ledger\<lparr>nodes := {''peer:5000''}\<rparr>"

definition demo_get :: "string \<Rightarrow> response" where
  "demo_get url =
     (if url = ''http://peer:5000/chain'' then Reply 200 (Payload 3 [demo_stray])
      else if url = ''http://idle:5000/chain'' then Reply 503 NotJson
      else if url = ''http://long:5000/chain'' then Reply 200 (Payload 3 [demo_genesis, demo_block2, demo_block3])
      else Unreachable)"

definition demo_iter :: "string set \<Rightarrow> string list" where
  "demo_iter S = filter (\<lambda>n. n \<in> S) [''idle:5000'', ''peer:5000'', ''long:5000'', ''down:5000'']"

text \<open>
  The words of the specification of consensus, to compare the loop with: the candidates
  are the pairs of reported length and chain in the answers with status 200, in the order
  the peers are visited. The answers are well formed when every peer answers, and every
  answer with status 200 carries both keys and a chain that is not empty.
\<close>

definition peer_candidates :: "(string \<Rightarrow> response) \<Rightarrow> string list \<Rightarrow> (int \<times> block list) list" where
  "peer_candidates requests_get neighbours =
     concat (map (\<lambda>node. case requests_get (''http://'' @ node @ ''/chain'') of
                            Unreachable \<Rightarrow> []
                          | Reply status_code content \<Rightarrow>
                              (case content of
                                 Payload len c \<Rightarrow> if status_code = 200 then [(len, c)] else []
                               | _ \<Rightarrow> [])) neighbours)"

definition responses_well_formed :: "(string \<Rightarrow> response) \<Rightarrow> string list \<Rightarrow> bool" where
  "responses_well_formed requests_get neighbours =
     list_all (\<lambda>node. case requests_get (''http://'' @ node @ ''/chain'') of
                         Unreachable \<Rightarrow> False
                       | Reply status_code content \<Rightarrow>
                           status_code \<noteq> 200 \<or>
                           (case content of Payload len c \<Rightarrow> c \<noteq> [] | _ \<Rightarrow> False)) neighbours"

text \<open>The sample ledger with an unreachable peer, with two peers and with three peers.\<close>

definition demo_isolated :: blockchain where
  "demo_isolated = demo_ledger\<lparr>nodes := {''down:5000''}\<rparr>"

definition demo_two_peers :: blockchain where
  "demo_two_peers = demo_ledger\<lparr>nodes := {''idle:5000'', ''peer:5000''}\<rparr>"

definition demo_three_peers :: blockchain where
  "demo_three_peers = demo_ledger\<lparr>nodes := {''idle:5000'', ''peer:5000'', ''long:5000''}\<rparr>"

text \<open>
  The sample ledger with a peer that sends a chain and a peer that cannot be reached, and
  a second stub of the network, whose one peer sends back the two blocks of the sample
  ledger with a reported length of 3.
\<close>

definition demo_long_down :: blockchain where
  "demo_long_down = demo_ledger\<lparr>nodes := {''long:5000'', ''down:5000''}\<rparr>"

definition demo_echo :: "string \<Rightarrow> response" where
  "demo_echo url =
     (if url = ''http://peer:5000/chain'' then Reply 200 (Payload 3 [demo_genesis, demo_block2])
      else Unreachable)"

section \<open>Proof of work\<close>

lemmas format_int_eval = format_int_def nat_digits.simps digit_char_def

lemma take_4_zeros_iff_prefix: "(take 4 h = ''0000'') = prefix ''0000'' h"
proof
  assume "take 4 h = ''0000''"
  then have "h = ''0000'' @ drop 4 h" by (metis append_take_drop_id)
  then show "prefix ''0000'' h" by (metis prefixI)
next
  assume "prefix ''0000'' h"
  then obtain t where "h = ''0000'' @ t" by (auto simp: prefix_def)
  then show "take 4 h = ''0000''" by simp
qed

text \<open>
  Claim C5. \<open>valid_proof(last_proof, proof)\<close> is true exactly when the digest of the decimal
  string of \<open>last_proof\<close> followed by the decimal string of \<open>proof\<close> begins with four
  characters \<open>0\<close>.
\<close>

theorem valid_proof_iff:
  "valid_proof sha256 last_proof p \<longleftrightarrow> prefix ''0000'' (sha256 (format_int last_proof @ format_int p))"
  unfolding valid_proof_def Let_def by (rule take_4_zeros_iff_prefix)

text \<open>
  Claim C10. The check sees the concatenated string only: two pairs with the same
  concatenation, such as \<open>(1, 23)\<close> and \<open>(12, 3)\<close>, get the same answer.
\<close>

theorem valid_proof_concat:
  "format_int a @ format_int b = format_int c @ format_int d \<Longrightarrow>
   valid_proof sha256 a b = valid_proof sha256 c d"
  by (simp add: valid_proof_def)

theorem valid_proof_concat_witness:
  "format_int 1 @ format_int 23 = format_int 12 @ format_int 3 \<and> ((1::int), (23::int)) \<noteq> (12, 3)
   \<and> valid_proof demo_sha256 1 23 = valid_proof demo_sha256 12 3"
proof -
  have e: "format_int 1 @ format_int 23 = format_int 12 @ format_int 3"
    by (simp add: format_int_eval)
  from valid_proof_concat [OF e] e show ?thesis by simp
qed

lemma pow_loop_found: "valid_proof sha256 lp p \<Longrightarrow> proof_of_work_loop sha256 lp p = Some p"
  by (subst proof_of_work_loop.simps) simp

lemma pow_loop_next:
  "\<not> valid_proof sha256 lp p \<Longrightarrow>
   proof_of_work_loop sha256 lp p = proof_of_work_loop sha256 lp (p + 1)"
  by (subst proof_of_work_loop.simps) simp

text \<open>The search started at \<open>p\<close> ends at the first valid proof from \<open>p\<close> on, when there is one.\<close>

lemma pow_loop_least:
  assumes "valid_proof sha256 lp q" "p \<le> q" "\<forall>r. p \<le> r \<and> r < q \<longrightarrow> \<not> valid_proof sha256 lp r"
  shows "proof_of_work_loop sha256 lp p = Some q"
  using assms
proof (induction "nat (q - p)" arbitrary: p)
  case 0
  then have "p = q" by simp
  with 0 show ?case by (simp add: pow_loop_found)
next
  case (Suc n)
  then have "p < q" by linarith
  with Suc.prems have nv: "\<not> valid_proof sha256 lp p" by simp
  have "proof_of_work_loop sha256 lp (p + 1) = Some q"
    using Suc.hyps(2) Suc.prems \<open>p < q\<close> by (intro Suc.hyps(1)) auto
  with nv show ?case by (simp add: pow_loop_next)
qed

text \<open>Whatever the search returns is valid, and nothing it passed over was.\<close>

lemma pow_loop_sound:
  assumes "proof_of_work_loop sha256 lp p = Some q"
  shows "p \<le> q \<and> valid_proof sha256 lp q \<and> (\<forall>r. p \<le> r \<and> r < q \<longrightarrow> \<not> valid_proof sha256 lp r)"
proof (rule proof_of_work_loop.raw_induct
    [where P = "\<lambda>sha lp p q. p \<le> q \<and> valid_proof sha lp q \<and> (\<forall>r. p \<le> r \<and> r < q \<longrightarrow> \<not> valid_proof sha lp r)",
      OF _ assms])
  fix f :: "digest \<Rightarrow> int \<Rightarrow> int \<Rightarrow> int option" and sha lp p q
  assume IH: "\<And>sha lp p q. f sha lp p = Some q \<Longrightarrow>
      p \<le> q \<and> valid_proof sha lp q \<and> (\<forall>r. p \<le> r \<and> r < q \<longrightarrow> \<not> valid_proof sha lp r)"
    and step: "(if valid_proof sha lp p = False then f sha lp (p + 1) else Some p) = Some q"
  show "p \<le> q \<and> valid_proof sha lp q \<and> (\<forall>r. p \<le> r \<and> r < q \<longrightarrow> \<not> valid_proof sha lp r)"
  proof (cases "valid_proof sha lp p")
    case True
    with step show ?thesis by auto
  next
    case False
    with step have "f sha lp (p + 1) = Some q" by simp
    from IH[OF this] have a: "p + 1 \<le> q" and b: "valid_proof sha lp q"
      and c: "\<forall>r. p + 1 \<le> r \<and> r < q \<longrightarrow> \<not> valid_proof sha lp r" by auto
    have "\<not> valid_proof sha lp r" if "p \<le> r" "r < q" for r
    proof (cases "r = p")
      case True with False show ?thesis by simp
    next
      case False
      with that have "p + 1 \<le> r" by simp
      with c that show ?thesis by simp
    qed
    with a b show ?thesis by auto
  qed
qed

lemma proof_of_work_valid:
  "proof_of_work sha256 lp = Some q \<Longrightarrow> valid_proof sha256 lp q"
  unfolding proof_of_work_def by (drule pow_loop_sound) simp

text \<open>When some non-negative proof is valid, the search started at 0 returns the least one.\<close>

lemma pow_least_exists:
  assumes "0 \<le> p" and "valid_proof sha256 last_proof p"
  shows "\<exists>q. proof_of_work sha256 last_proof = Some q \<and> 0 \<le> q \<and> q \<le> p
           \<and> valid_proof sha256 last_proof q
           \<and> (\<forall>r. 0 \<le> r \<and> r < q \<longrightarrow> \<not> valid_proof sha256 last_proof r)"
proof -
  define n where "n = (LEAST n. valid_proof sha256 last_proof (int n))"
  from assms have ex: "valid_proof sha256 last_proof (int (nat p))" by simp
  then have vn: "valid_proof sha256 last_proof (int n)"
    unfolding n_def by (rule LeastI)
  have le: "n \<le> nat p" unfolding n_def using ex by (rule Least_le)
  have least: "\<not> valid_proof sha256 last_proof r" if "0 \<le> r" "r < int n" for r
  proof -
    from that have "nat r < n" by linarith
    then have "\<not> valid_proof sha256 last_proof (int (nat r))"
      unfolding n_def by (rule not_less_Least)
    with that show ?thesis by simp
  qed
  then have "proof_of_work_loop sha256 last_proof 0 = Some (int n)"
    using vn by (intro pow_loop_least) auto
  with vn le least assms(1) show ?thesis
    unfolding proof_of_work_def by (intro exI[of _ "int n"]) auto
qed

text \<open>
  Claim C4. When some non-negative proof is valid for \<open>last_proof\<close>, the search returns,
  and what it returns is the smallest non-negative valid proof.
\<close>

theorem proof_of_work_least:
  assumes "0 \<le> p" and "valid_proof sha256 last_proof p"
  shows "\<exists>q. proof_of_work sha256 last_proof = Some q \<and> 0 \<le> q \<and> q \<le> p
           \<and> valid_proof sha256 last_proof q
           \<and> (\<forall>r. 0 \<le> r \<and> r < q \<longrightarrow> \<not> valid_proof sha256 last_proof r)"
  using assms by (rule pow_least_exists)

theorem proof_of_work_least_witness:
  "(0::int) \<le> 2 \<and> valid_proof demo_sha256 100 2 \<and> proof_of_work demo_sha256 100 = Some 2"
proof -
  have v: "valid_proof demo_sha256 100 2"
    by (simp add: valid_proof_def demo_sha256_def format_int_eval)
  have n0: "\<not> valid_proof demo_sha256 100 0"
    by (simp add: valid_proof_def demo_sha256_def format_int_eval)
  have n1: "\<not> valid_proof demo_sha256 100 1"
    by (simp add: valid_proof_def demo_sha256_def format_int_eval)
  from proof_of_work_least [of 2 demo_sha256 100, OF _ v]
  obtain q where q: "proof_of_work demo_sha256 100 = Some q" "0 \<le> q" "q \<le> 2"
    "valid_proof demo_sha256 100 q" by auto
  from q(2,3) have "q = 0 \<or> q = 1 \<or> q = 2" by arith
  with q(4) n0 n1 have "q = 2" by auto
  with q(1) v show ?thesis by simp
qed

section \<open>Chain validation\<close>

text \<open>
  The loop started at position \<open>i\<close> with the block before it checks every link from \<open>i\<close> on.
\<close>

lemma valid_chain_loop_iff:
  "0 < i \<Longrightarrow> i \<le> length c \<Longrightarrow> last_block = c ! (i - 1) \<Longrightarrow>
   valid_chain_loop sha256 json_dumps c last_block i =
     (\<forall>j. i \<le> j \<and> j < length c \<longrightarrow>
        previous_hash (c ! j) = HStr (hash sha256 json_dumps (c ! (j - 1)))
        \<and> valid_proof sha256 (block_proof (c ! (j - 1))) (block_proof (c ! j)))"
proof (induction sha256 json_dumps c last_block i rule: valid_chain_loop.induct)
  case (1 sha256 json_dumps c last_block i)
  let ?ok = "\<lambda>j. previous_hash (c ! j) = HStr (hash sha256 json_dumps (c ! (j - 1)))
        \<and> valid_proof sha256 (block_proof (c ! (j - 1))) (block_proof (c ! j))"
  show ?case
  proof (cases "i < length c")
    case False
    then show ?thesis by (subst valid_chain_loop.simps) auto
  next
    case True
    show ?thesis
    proof (cases "?ok i")
      case False
      with True 1(4) have "valid_chain_loop sha256 json_dumps c last_block i = False"
        by (subst valid_chain_loop.simps) (auto simp: Let_def)
      moreover from False True have "\<not> (\<forall>j. i \<le> j \<and> j < length c \<longrightarrow> ?ok j)" by blast
      ultimately show ?thesis by simp
    next
      case ok: True
      with True 1(4) have unf: "valid_chain_loop sha256 json_dumps c last_block i =
          valid_chain_loop sha256 json_dumps c (c ! i) (i + 1)"
        by (subst valid_chain_loop.simps) (simp add: Let_def)
      have "valid_chain_loop sha256 json_dumps c (c ! i) (i + 1) =
          (\<forall>j. i + 1 \<le> j \<and> j < length c \<longrightarrow> ?ok j)"
        using True ok 1(4) by (intro 1(1)[OF True refl]) auto
      also have "\<dots> = (\<forall>j. i \<le> j \<and> j < length c \<longrightarrow> ?ok j)"
      proof
        assume a: "\<forall>j. i + 1 \<le> j \<and> j < length c \<longrightarrow> ?ok j"
        show "\<forall>j. i \<le> j \<and> j < length c \<longrightarrow> ?ok j"
        proof (intro allI impI)
          fix j assume j: "i \<le> j \<and> j < length c"
          show "?ok j"
          proof (cases "j = i")
            case True with ok show ?thesis by simp
          next
            case False
            with j have "i + 1 \<le> j \<and> j < length c" by simp
            with a show ?thesis by blast
          qed
        qed
      next
        assume "\<forall>j. i \<le> j \<and> j < length c \<longrightarrow> ?ok j"
        then show "\<forall>j. i + 1 \<le> j \<and> j < length c \<longrightarrow> ?ok j" by simp
      qed
      finally show ?thesis using unf by simp
    qed
  qed
qed

lemma valid_chain_links:
  assumes "c \<noteq> []"
  shows "valid_chain sha256 json_dumps c =
     Inr (\<forall>i. Suc i < length c \<longrightarrow>
            previous_hash (c ! Suc i) = HStr (hash sha256 json_dumps (c ! i))
            \<and> valid_proof sha256 (block_proof (c ! i)) (block_proof (c ! Suc i)))"
proof -
  from assms obtain b bs where c: "c = b # bs" by (cases c) auto
  have "valid_chain_loop sha256 json_dumps c (c ! (1 - 1)) 1 =
     (\<forall>j. 1 \<le> j \<and> j < length c \<longrightarrow>
        previous_hash (c ! j) = HStr (hash sha256 json_dumps (c ! (j - 1)))
        \<and> valid_proof sha256 (block_proof (c ! (j - 1))) (block_proof (c ! j)))"
    using c by (intro valid_chain_loop_iff) auto
  also have "\<dots> = (\<forall>i. Suc i < length c \<longrightarrow>
            previous_hash (c ! Suc i) = HStr (hash sha256 json_dumps (c ! i))
            \<and> valid_proof sha256 (block_proof (c ! i)) (block_proof (c ! Suc i)))"
  proof
    assume a: "\<forall>j. 1 \<le> j \<and> j < length c \<longrightarrow>
        previous_hash (c ! j) = HStr (hash sha256 json_dumps (c ! (j - 1)))
        \<and> valid_proof sha256 (block_proof (c ! (j - 1))) (block_proof (c ! j))"
    show "\<forall>i. Suc i < length c \<longrightarrow>
            previous_hash (c ! Suc i) = HStr (hash sha256 json_dumps (c ! i))
            \<and> valid_proof sha256 (block_proof (c ! i)) (block_proof (c ! Suc i))"
    proof (intro allI impI)
      fix i assume "Suc i < length c"
      with a[rule_format, of "Suc i"] show "previous_hash (c ! Suc i) = HStr (hash sha256 json_dumps (c ! i))
            \<and> valid_proof sha256 (block_proof (c ! i)) (block_proof (c ! Suc i))" by simp
    qed
  next
    assume a: "\<forall>i. Suc i < length c \<longrightarrow>
            previous_hash (c ! Suc i) = HStr (hash sha256 json_dumps (c ! i))
            \<and> valid_proof sha256 (block_proof (c ! i)) (block_proof (c ! Suc i))"
    show "\<forall>j. 1 \<le> j \<and> j < length c \<longrightarrow>
        previous_hash (c ! j) = HStr (hash sha256 json_dumps (c ! (j - 1)))
        \<and> valid_proof sha256 (block_proof (c ! (j - 1))) (block_proof (c ! j))"
    proof (intro allI impI)
      fix j assume j: "1 \<le> j \<and> j < length c"
      then obtain i where "j = Suc i" by (cases j) auto
      with j a[rule_format, of i] show "previous_hash (c ! j) = HStr (hash sha256 json_dumps (c ! (j - 1)))
        \<and> valid_proof sha256 (block_proof (c ! (j - 1))) (block_proof (c ! j))" by simp
    qed
  qed
  finally show ?thesis using c by (simp add: valid_chain_def)
qed


text \<open>
  Claim C2. On a non-empty chain the validator answers true exactly when every block from
  the second on carries the hash of the block before it and the two proofs pass
  \<open>valid_proof\<close>; a chain of one block is valid; and a failing link decides the answer,
  whatever follows it. The validator is a function from the chain to its answer: it assigns
  to nothing.
\<close>

theorem valid_chain_iff:
  assumes "c \<noteq> []"
  shows "valid_chain sha256 json_dumps c =
           Inr (\<forall>i. Suc i < length c \<longrightarrow>
                  previous_hash (c ! Suc i) = HStr (hash sha256 json_dumps (c ! i))
                  \<and> valid_proof sha256 (block_proof (c ! i)) (block_proof (c ! Suc i)))
         \<and> (length c = 1 \<longrightarrow> valid_chain sha256 json_dumps c = Inr True)
         \<and> (\<forall>k rest. Suc k < length c
               \<and> \<not> (previous_hash (c ! Suc k) = HStr (hash sha256 json_dumps (c ! k))
                     \<and> valid_proof sha256 (block_proof (c ! k)) (block_proof (c ! Suc k)))
               \<longrightarrow> valid_chain sha256 json_dumps (take (Suc (Suc k)) c @ rest) = Inr False)"
proof (intro conjI allI impI)
  show "valid_chain sha256 json_dumps c =
           Inr (\<forall>i. Suc i < length c \<longrightarrow>
                  previous_hash (c ! Suc i) = HStr (hash sha256 json_dumps (c ! i))
                  \<and> valid_proof sha256 (block_proof (c ! i)) (block_proof (c ! Suc i)))"
    using assms by (rule valid_chain_links)
next
  assume "length c = 1"
  then show "valid_chain sha256 json_dumps c = Inr True"
    using valid_chain_links [OF assms, of sha256 json_dumps] by simp
next
  fix k rest
  assume k: "Suc k < length c
               \<and> \<not> (previous_hash (c ! Suc k) = HStr (hash sha256 json_dumps (c ! k))
                     \<and> valid_proof sha256 (block_proof (c ! k)) (block_proof (c ! Suc k)))"
  let ?d = "take (Suc (Suc k)) c @ rest"
  from k have len: "length (take (Suc (Suc k)) c) = Suc (Suc k)" by simp
  have d0: "?d ! k = c ! k" and d1: "?d ! Suc k = c ! Suc k"
    using len by (simp_all add: nth_append)
  have ne: "?d \<noteq> []" using assms by (cases c) auto
  have "Suc k < length ?d" using len by simp
  with k d0 d1 have "\<not> (\<forall>i. Suc i < length ?d \<longrightarrow>
                  previous_hash (?d ! Suc i) = HStr (hash sha256 json_dumps (?d ! i))
                  \<and> valid_proof sha256 (block_proof (?d ! i)) (block_proof (?d ! Suc i)))"
    by metis
  with valid_chain_links [OF ne, of sha256 json_dumps]
  show "valid_chain sha256 json_dumps ?d = Inr False" by simp
qed

lemmas demo_eval = valid_proof_def demo_sha256_def demo_dumps_def hash_def format_int_eval

theorem valid_chain_iff_witness:
  "[demo_genesis, demo_block2] \<noteq> []
   \<and> valid_chain demo_sha256 demo_dumps [demo_genesis, demo_block2] = Inr True
   \<and> valid_chain demo_sha256 demo_dumps [demo_genesis, demo_forged, demo_block2] = Inr False"
proof -
  have ne: "[demo_genesis, demo_block2] \<noteq> []" by simp
  have l: "previous_hash demo_block2 = HStr (hash demo_sha256 demo_dumps demo_genesis)"
    by (simp add: demo_genesis_def demo_block2_def demo_eval)
  have v: "valid_proof demo_sha256 (block_proof demo_genesis) (block_proof demo_block2)"
    by (simp add: demo_genesis_def demo_block2_def demo_eval)
  have a: "valid_chain demo_sha256 demo_dumps [demo_genesis, demo_block2] = Inr True"
    using valid_chain_iff [OF ne, of demo_sha256 demo_dumps] l v by (simp add: less_Suc_eq)
  have nv: "\<not> valid_proof demo_sha256 (block_proof demo_genesis) (block_proof demo_forged)"
    by (simp add: demo_genesis_def demo_forged_def demo_eval)
  have ne3: "[demo_genesis, demo_forged] \<noteq> []" by simp
  from valid_chain_iff [OF ne3, of demo_sha256 demo_dumps] nv
  have "valid_chain demo_sha256 demo_dumps (take (Suc (Suc 0)) [demo_genesis, demo_forged] @ [demo_block2]) = Inr False"
    by auto
  with a ne show ?thesis by simp
qed

section \<open>The chain a node builds\<close>

lemma invariant_init: "ledger_invariant sha256 json_dumps (chain (init sha256 json_dumps now))"
  by (simp add: init_def new_block_def empty_blockchain_def ledger_invariant_def Let_def)

lemma invariant_append:
  assumes inv: "ledger_invariant sha256 json_dumps c"
    and h: "previous_hash b = HStr (hash sha256 json_dumps (last c))"
    and v: "valid_proof sha256 (block_proof (last c)) (block_proof b)"
    and i: "index b = int (length c) + 1"
  shows "ledger_invariant sha256 json_dumps (c @ [b])"
proof -
  from inv have ne: "c \<noteq> []" by (simp add: ledger_invariant_def)
  then have last: "last c = c ! (length c - 1)" by (simp add: last_conv_nth)
  have links: "previous_hash ((c @ [b]) ! Suc k) = HStr (hash sha256 json_dumps ((c @ [b]) ! k))
            \<and> valid_proof sha256 (block_proof ((c @ [b]) ! k)) (block_proof ((c @ [b]) ! Suc k))"
    if "Suc k < length (c @ [b])" for k
  proof (cases "Suc k < length c")
    case True
    with inv show ?thesis by (simp add: ledger_invariant_def nth_append)
  next
    case False
    with that have k: "Suc k = length c" by simp
    then have "k = length c - 1" by simp
    with k last have "(c @ [b]) ! Suc k = b" "(c @ [b]) ! k = last c"
      using ne by (simp_all add: nth_append)
    with h v show ?thesis by simp
  qed
  have idx: "index ((c @ [b]) ! k) = int k + 1" if "k < length (c @ [b])" for k
  proof (cases "k < length c")
    case True
    with inv show ?thesis by (simp add: ledger_invariant_def nth_append)
  next
    case False
    with that have "k = length c" by simp
    with i show ?thesis by simp
  qed
  from links idx show ?thesis unfolding ledger_invariant_def by blast
qed

lemma add_transaction_chain: "chain (snd (add_transaction sndr rcpt amt s)) = chain s"
  by (simp add: add_transaction_def Let_def)

lemma add_transaction_ok:
  "chain s \<noteq> [] \<Longrightarrow>
   add_transaction sndr rcpt amt s =
     (Inr (index (last (chain s)) + 1),
      s\<lparr>current_transactions :=
          current_transactions s @ [\<lparr>sender = sndr, recipient = rcpt, amount = amt\<rparr>]\<rparr>)"
  by (simp add: add_transaction_def Let_def)

lemma new_block_tip:
  "chain s \<noteq> [] \<Longrightarrow>
   new_block sha256 json_dumps now p None s =
     (let b = \<lparr>index = int (length (chain s)) + 1, timestamp = now,
               transactions = current_transactions s, block_proof = p,
               previous_hash = HStr (hash sha256 json_dumps (last (chain s)))\<rparr>
      in (Inr b, s\<lparr>current_transactions := [], chain := chain s @ [b]\<rparr>))"
  by (simp add: new_block_def Let_def)

lemma mine_ok:
  assumes "chain s \<noteq> []"
    and "proof_of_work sha256 (block_proof (last (chain s))) = Some p"
  shows "mine sha256 json_dumps node_identifier now s =
     (let b = \<lparr>index = int (length (chain s)) + 1, timestamp = now,
               transactions = current_transactions s
                  @ [\<lparr>sender = ''0'', recipient = node_identifier, amount = 1\<rparr>],
               block_proof = p,
               previous_hash = HStr (hash sha256 json_dumps (last (chain s)))\<rparr>
      in Some (Inr b, s\<lparr>current_transactions := [], chain := chain s @ [b]\<rparr>))"
  using assms by (simp add: mine_def add_transaction_ok new_block_tip Let_def)

lemma mine_diverges:
  "chain s \<noteq> [] \<Longrightarrow> proof_of_work sha256 (block_proof (last (chain s))) = None \<Longrightarrow>
   mine sha256 json_dumps node_identifier now s = None"
  by (simp add: mine_def)

lemma invariant_mine:
  assumes inv: "ledger_invariant sha256 json_dumps (chain s)"
    and m: "mine sha256 json_dumps node_identifier now s = Some (r, s')"
  shows "ledger_invariant sha256 json_dumps (chain s')"
proof -
  from inv have ne: "chain s \<noteq> []" by (simp add: ledger_invariant_def)
  show ?thesis
  proof (cases "proof_of_work sha256 (block_proof (last (chain s)))")
    case None
    with ne m show ?thesis by (simp add: mine_diverges)
  next
    case (Some p)
    then have v: "valid_proof sha256 (block_proof (last (chain s))) p"
      by (rule proof_of_work_valid)
    from m have "chain s' = chain s @ [\<lparr>index = int (length (chain s)) + 1, timestamp = now,
               transactions = current_transactions s
                  @ [\<lparr>sender = ''0'', recipient = node_identifier, amount = 1\<rparr>],
               block_proof = p,
               previous_hash = HStr (hash sha256 json_dumps (last (chain s)))\<rparr>]"
      unfolding mine_ok [OF ne Some] by (auto simp: Let_def)
    moreover have "ledger_invariant sha256 json_dumps (chain s @ [\<lparr>index = int (length (chain s)) + 1, timestamp = now,
               transactions = current_transactions s
                  @ [\<lparr>sender = ''0'', recipient = node_identifier, amount = 1\<rparr>],
               block_proof = p,
               previous_hash = HStr (hash sha256 json_dumps (last (chain s)))\<rparr>])"
      using inv v by (intro invariant_append) simp_all
    ultimately show ?thesis by simp
  qed
qed

lemma invariant_serve:
  assumes "ledger_invariant sha256 json_dumps (chain s)"
    and "serve sha256 json_dumps node_identifier r s = Some s'"
  shows "ledger_invariant sha256 json_dumps (chain s')"
proof (cases r)
  case (Submit a b c)
  with assms show ?thesis by (auto simp: add_transaction_chain)
next
  case (Mine now)
  with assms(2) obtain res where "mine sha256 json_dumps node_identifier now s = Some (res, s')"
    by auto
  with assms(1) show ?thesis by (rule invariant_mine)
qed

lemma invariant_run:
  "ledger_invariant sha256 json_dumps (chain s) \<Longrightarrow>
   run sha256 json_dumps node_identifier rs s = Some s' \<Longrightarrow>
   ledger_invariant sha256 json_dumps (chain s')"
proof (induction rs arbitrary: s)
  case Nil
  then show ?case by simp
next
  case (Cons r rs)
  from Cons.prems(2) obtain s1 where s1: "serve sha256 json_dumps node_identifier r s = Some s1"
    and rest: "run sha256 json_dumps node_identifier rs s1 = Some s'"
    by (auto split: option.splits)
  from Cons.prems(1) s1 have "ledger_invariant sha256 json_dumps (chain s1)"
    by (rule invariant_serve)
  from Cons.IH [OF this rest] show ?case .
qed

text \<open>The run ends whenever every search does.\<close>

lemma run_returns:
  assumes "\<forall>lp. \<exists>p. 0 \<le> p \<and> valid_proof sha256 lp p"
    and "ledger_invariant sha256 json_dumps (chain s)"
  shows "\<exists>s'. run sha256 json_dumps node_identifier rs s = Some s'"
  using assms(2)
proof (induction rs arbitrary: s)
  case Nil
  then show ?case by simp
next
  case (Cons r rs)
  have "\<exists>s1. serve sha256 json_dumps node_identifier r s = Some s1"
  proof (cases r)
    case (Submit a b c)
    then show ?thesis by simp
  next
    case (Mine now)
    from Cons.prems have ne: "chain s \<noteq> []" by (simp add: ledger_invariant_def)
    from assms(1) obtain p where "0 \<le> p" "valid_proof sha256 (block_proof (last (chain s))) p"
      by blast
    from pow_least_exists [OF this] obtain q
      where "proof_of_work sha256 (block_proof (last (chain s))) = Some q" by blast
    from mine_ok [OF ne this] Mine show ?thesis by (simp add: Let_def)
  qed
  then obtain s1 where s1: "serve sha256 json_dumps node_identifier r s = Some s1" ..
  with Cons.prems have "ledger_invariant sha256 json_dumps (chain s1)"
    by (rule invariant_serve)
  from Cons.IH [OF this] s1 show ?case by simp
qed

text \<open>
  Claim C6. Whatever requests a new ledger has served, transaction submissions and mining
  steps in any order, its chain passes the validator: every block after the first carries
  the hash of its predecessor, consecutive proofs pass \<open>valid_proof\<close>, and the indices
  count up from 1. A mining step whose search never ends yields no ledger; the run ends
  whenever every search does (\<open>run_returns\<close>).
\<close>

theorem mined_chain_valid:
  assumes "run sha256 json_dumps node_identifier rs (init sha256 json_dumps now) = Some s"
  shows "valid_chain sha256 json_dumps (chain s) = Inr True
         \<and> (\<forall>i. Suc i < length (chain s) \<longrightarrow>
               previous_hash (chain s ! Suc i) = HStr (hash sha256 json_dumps (chain s ! i))
               \<and> valid_proof sha256 (block_proof (chain s ! i)) (block_proof (chain s ! Suc i)))
         \<and> (\<forall>i. i < length (chain s) \<longrightarrow> index (chain s ! i) = int i + 1)"
proof -
  have "ledger_invariant sha256 json_dumps (chain s)"
    using invariant_init assms by (rule invariant_run)
  then have ne: "chain s \<noteq> []"
    and links: "\<forall>i. Suc i < length (chain s) \<longrightarrow>
               previous_hash (chain s ! Suc i) = HStr (hash sha256 json_dumps (chain s ! i))
               \<and> valid_proof sha256 (block_proof (chain s ! i)) (block_proof (chain s ! Suc i))"
    and idx: "\<forall>i. i < length (chain s) \<longrightarrow> index (chain s ! i) = int i + 1"
    unfolding ledger_invariant_def by blast+
  from valid_chain_links [OF ne, of sha256 json_dumps] links
  have "valid_chain sha256 json_dumps (chain s) = Inr True" by simp
  with links idx show ?thesis by blast
qed

lemma demo_pow_100: "proof_of_work demo_sha256 100 = Some 2"
proof -
  have "\<not> valid_proof demo_sha256 100 0" "\<not> valid_proof demo_sha256 100 1"
    "valid_proof demo_sha256 100 2"
    by (simp_all add: demo_eval)
  then have "proof_of_work_loop demo_sha256 100 0 = Some 2"
    using pow_loop_next [of demo_sha256 100 0] pow_loop_next [of demo_sha256 100 1]
      pow_loop_found [of demo_sha256 100 2] by simp
  then show ?thesis by (simp add: proof_of_work_def)
qed

lemma demo_init: "init demo_sha256 demo_dumps 0 = \<lparr>chain = [demo_genesis], current_transactions = [], nodes = {}\<rparr>"
  by (simp add: init_def new_block_def empty_blockchain_def demo_genesis_def Let_def)

lemma demo_hash_genesis: "hash demo_sha256 demo_dumps demo_genesis = ''f00dc0de''"
  by (simp add: demo_genesis_def demo_eval)

lemma demo_mine:
  "mine demo_sha256 demo_dumps ''node'' 1 \<lparr>chain = [demo_genesis], current_transactions = [], nodes = {}\<rparr>
     = Some (Inr demo_block2, \<lparr>chain = [demo_genesis, demo_block2], current_transactions = [], nodes = {}\<rparr>)"
proof -
  have p: "proof_of_work demo_sha256 (block_proof (last (chain \<lparr>chain = [demo_genesis], current_transactions = [], nodes = {}\<rparr>))) = Some 2"
    using demo_pow_100 by (simp add: demo_genesis_def)
  show ?thesis
    by (subst mine_ok [OF _ p]) (simp_all add: Let_def demo_hash_genesis demo_block2_def)
qed

theorem mined_chain_valid_witness:
  "run demo_sha256 demo_dumps ''node'' [Mine 1, Submit ''alice'' ''bob'' 5] (init demo_sha256 demo_dumps 0)
     = Some demo_ledger
   \<and> valid_chain demo_sha256 demo_dumps (chain demo_ledger) = Inr True
   \<and> map index (chain demo_ledger) = [1, 2]"
proof -
  have r: "run demo_sha256 demo_dumps ''node'' [Mine 1, Submit ''alice'' ''bob'' 5] (init demo_sha256 demo_dumps 0)
     = Some demo_ledger"
    by (simp add: demo_init demo_mine add_transaction_def demo_ledger_def Let_def)
  from mined_chain_valid [OF r] have "valid_chain demo_sha256 demo_dumps (chain demo_ledger) = Inr True"
    by simp
  with r show ?thesis by (simp add: demo_ledger_def demo_genesis_def demo_block2_def)
qed

section \<open>Creating a block\<close>

lemma new_block_returns:
  assumes "chain s \<noteq> []"
  shows "new_block sha256 json_dumps now p previous_hash_arg s =
     (let b = \<lparr>index = int (length (chain s)) + 1, timestamp = now,
               transactions = current_transactions s, block_proof = p,
               previous_hash =
                 (case previous_hash_arg of
                    None \<Rightarrow> HStr (hash sha256 json_dumps (last (chain s)))
                  | Some v \<Rightarrow> if truthy v then v
                              else HStr (hash sha256 json_dumps (last (chain s))))\<rparr>
      in (Inr b, s\<lparr>current_transactions := [], chain := chain s @ [b]\<rparr>))"
  using assms by (simp add: new_block_def Let_def split: option.splits)

text \<open>
  Claim C7, as the code has it. On a ledger with a non-empty chain \<open>new_block\<close> returns a
  block and appends it. Its index is the number of blocks plus 1, which is the tip's index
  plus 1 when the tip's index is the number of blocks; its transactions are the pending
  pool; its \<open>previous_hash\<close> is the supplied value when that value is present and true in
  Python's sense, and the hash of the tip when it is absent, \<open>0\<close> or the empty string.
\<close>

theorem new_block_fields:
  assumes "chain s \<noteq> []"
  shows "\<exists>b. new_block sha256 json_dumps now p previous_hash_arg s =
               (Inr b, s\<lparr>current_transactions := [], chain := chain s @ [b]\<rparr>)
           \<and> index b = int (length (chain s)) + 1
           \<and> (index (last (chain s)) = int (length (chain s)) \<longrightarrow> index b = index (last (chain s)) + 1)
           \<and> transactions b = current_transactions s
           \<and> block_proof b = p
           \<and> timestamp b = now
           \<and> previous_hash b =
               (case previous_hash_arg of
                  None \<Rightarrow> HStr (hash sha256 json_dumps (last (chain s)))
                | Some v \<Rightarrow> if truthy v then v
                            else HStr (hash sha256 json_dumps (last (chain s))))"
  unfolding new_block_returns [OF assms] by (simp add: Let_def)

theorem new_block_fields_witness:
  "chain demo_ledger \<noteq> []
   \<and> index (last (chain demo_ledger)) = int (length (chain demo_ledger))
   \<and> new_block demo_sha256 demo_dumps 2 7 (Some (HStr ''abc'')) demo_ledger =
       (Inr \<lparr>index = 3, timestamp = 2,
             transactions = [\<lparr>sender = ''alice'', recipient = ''bob'', amount = 5\<rparr>],
             block_proof = 7, previous_hash = HStr ''abc''\<rparr>,
        \<lparr>chain = [demo_genesis, demo_block2,
                  \<lparr>index = 3, timestamp = 2,
                   transactions = [\<lparr>sender = ''alice'', recipient = ''bob'', amount = 5\<rparr>],
                   block_proof = 7, previous_hash = HStr ''abc''\<rparr>],
         current_transactions = [], nodes = {}\<rparr>)"
proof -
  have ne: "chain demo_ledger \<noteq> []" by (simp add: demo_ledger_def)
  from new_block_fields [OF ne, of demo_sha256 demo_dumps 2 7 "Some (HStr ''abc'')"]
  obtain b where b: "new_block demo_sha256 demo_dumps 2 7 (Some (HStr ''abc'')) demo_ledger =
               (Inr b, demo_ledger\<lparr>current_transactions := [], chain := chain demo_ledger @ [b]\<rparr>)"
    and f: "index b = int (length (chain demo_ledger)) + 1"
      "transactions b = current_transactions demo_ledger" "block_proof b = 7"
      "previous_hash b = HStr ''abc''"
    and t: "timestamp b = 2"
    by auto
  have "b = \<lparr>index = 3, timestamp = 2,
             transactions = [\<lparr>sender = ''alice'', recipient = ''bob'', amount = 5\<rparr>],
             block_proof = 7, previous_hash = HStr ''abc''\<rparr>"
    using f t by (cases b) (simp add: demo_ledger_def)
  with b show ?thesis by (simp add: demo_ledger_def demo_block2_def)
qed

text \<open>
  Claim C7 as stated fails: with \<open>previous_hash = 0\<close> supplied, on a ledger whose only
  block is numbered 5, the new block carries the hash of the tip and the index 2.
\<close>

theorem new_block_previous_hash_counterexample:
  "fst (new_block demo_sha256 demo_dumps 2 7 (Some (HInt 0)) demo_adopted)
     = Inr \<lparr>index = 2, timestamp = 2, transactions = [], block_proof = 7,
            previous_hash = HStr ''f00dc0de''\<rparr>
   \<and> HStr ''f00dc0de'' \<noteq> HInt 0
   \<and> index (last (chain demo_adopted)) + 1 = 6"
  by (simp add: new_block_def demo_adopted_def demo_stray_def Let_def demo_eval)

text \<open>Consensus replaces the chain at most; the pool and the peer set stay.\<close>

lemma resolve_conflicts_pool:
  "current_transactions (snd (resolve_conflicts sha256 json_dumps requests_get iter s)) = current_transactions s"
  by (simp add: resolve_conflicts_def Let_def split: sum.splits prod.splits option.splits)

lemma resolve_conflicts_nodes:
  "nodes (snd (resolve_conflicts sha256 json_dumps requests_get iter s)) = nodes s"
  by (simp add: resolve_conflicts_def Let_def split: sum.splits prod.splits option.splits)

lemma new_block_result:
  "new_block sha256 json_dumps now p previous_hash_arg s = (r, s') \<Longrightarrow>
   (case r of
      Inl e \<Rightarrow> s' = s
    | Inr b \<Rightarrow> transactions b = current_transactions s \<and> current_transactions s' = []
               \<and> chain s' = chain s @ [b] \<and> nodes s' = nodes s)"
  by (auto simp: new_block_def Let_def split: option.splits if_splits sum.splits)

lemma add_transaction_pool:
  "current_transactions (snd (add_transaction sndr rcpt amt s)) =
     current_transactions s @ [\<lparr>sender = sndr, recipient = rcpt, amount = amt\<rparr>]"
  by (simp add: add_transaction_def Let_def)

lemma submit_three_then_mine:
  assumes ne: "chain s \<noteq> []" and empty: "current_transactions s = []"
    and pow: "proof_of_work sha256 (block_proof (last (chain s))) = Some q"
  shows "\<exists>b s'. mine sha256 json_dumps node_identifier now
              (snd (add_transaction a3 r3 m3 (snd (add_transaction a2 r2 m2
                 (snd (add_transaction a1 r1 m1 s)))))) = Some (Inr b, s')
           \<and> transactions b = [\<lparr>sender = a1, recipient = r1, amount = m1\<rparr>,
                                \<lparr>sender = a2, recipient = r2, amount = m2\<rparr>,
                                \<lparr>sender = a3, recipient = r3, amount = m3\<rparr>,
                                \<lparr>sender = ''0'', recipient = node_identifier, amount = 1\<rparr>]
           \<and> current_transactions s' = []
           \<and> chain s' = chain s @ [b] \<and> nodes s' = nodes s"
proof -
  let ?s3 = "snd (add_transaction a3 r3 m3 (snd (add_transaction a2 r2 m2
                 (snd (add_transaction a1 r1 m1 s)))))"
  have c3: "chain ?s3 = chain s" by (simp add: add_transaction_chain)
  have n3: "nodes ?s3 = nodes s" by (simp add: add_transaction_def Let_def)
  have p3: "current_transactions ?s3 = [\<lparr>sender = a1, recipient = r1, amount = m1\<rparr>,
                                \<lparr>sender = a2, recipient = r2, amount = m2\<rparr>,
                                \<lparr>sender = a3, recipient = r3, amount = m3\<rparr>]"
    using empty by (simp add: add_transaction_pool)
  have ne3: "chain ?s3 \<noteq> []" using ne c3 by simp
  have pow3: "proof_of_work sha256 (block_proof (last (chain ?s3))) = Some q"
    using pow c3 by simp
  show ?thesis
    unfolding mine_ok [OF ne3 pow3] using c3 n3 p3 by (simp add: Let_def)
qed

text \<open>
  Claim C8. A block that \<open>new_block\<close> creates takes the whole pending pool, in order, and
  leaves the pool empty; the earlier blocks and the peer set stay as they were, and a call
  that raises changes nothing. No other operation empties the pool: \<open>add_transaction\<close>
  extends it, \<open>register_node\<close> and \<open>resolve_conflicts\<close> leave it alone. Three submissions
  and a mining step whose search ends, on a ledger with an empty pool, give a block with
  the three transactions and the reward, and an empty pool.
\<close>

theorem pool_transfer:
  "(\<forall>b s'. new_block sha256 json_dumps now p previous_hash_arg s = (Inr b, s') \<longrightarrow>
        transactions b = current_transactions s \<and> current_transactions s' = []
        \<and> (\<forall>t \<in> set (transactions b). t \<notin> set (current_transactions s'))
        \<and> chain s' = chain s @ [b] \<and> nodes s' = nodes s)
   \<and> (\<forall>e s'. new_block sha256 json_dumps now p previous_hash_arg s = (Inl e, s') \<longrightarrow> s' = s)
   \<and> (chain s \<noteq> [] \<longrightarrow> (\<exists>b s'. new_block sha256 json_dumps now p previous_hash_arg s = (Inr b, s')))
   \<and> current_transactions (snd (add_transaction sndr rcpt amt s)) =
        current_transactions s @ [\<lparr>sender = sndr, recipient = rcpt, amount = amt\<rparr>]
   \<and> current_transactions (register_node netloc address s) = current_transactions s
   \<and> current_transactions (snd (resolve_conflicts sha256 json_dumps requests_get iter s)) =
        current_transactions s
   \<and> (chain s \<noteq> [] \<and> current_transactions s = []
        \<and> proof_of_work sha256 (block_proof (last (chain s))) = Some q \<longrightarrow>
        (\<exists>b s'. mine sha256 json_dumps node_identifier now
              (snd (add_transaction a3 r3 m3 (snd (add_transaction a2 r2 m2
                 (snd (add_transaction a1 r1 m1 s)))))) = Some (Inr b, s')
           \<and> transactions b = [\<lparr>sender = a1, recipient = r1, amount = m1\<rparr>,
                                \<lparr>sender = a2, recipient = r2, amount = m2\<rparr>,
                                \<lparr>sender = a3, recipient = r3, amount = m3\<rparr>,
                                \<lparr>sender = ''0'', recipient = node_identifier, amount = 1\<rparr>]
           \<and> current_transactions s' = []
           \<and> chain s' = chain s @ [b] \<and> nodes s' = nodes s))"
proof (intro conjI allI impI)
  fix b s' assume a: "new_block sha256 json_dumps now p previous_hash_arg s = (Inr b, s')"
  from new_block_result [OF a]
  show "transactions b = current_transactions s" "current_transactions s' = []"
    "chain s' = chain s @ [b]" "nodes s' = nodes s" by simp_all
  then show "\<forall>t \<in> set (transactions b). t \<notin> set (current_transactions s')" by simp
next
  fix e s' assume a: "new_block sha256 json_dumps now p previous_hash_arg s = (Inl e, s')"
  from new_block_result [OF a] show "s' = s" by simp
next
  assume "chain s \<noteq> []"
  from new_block_returns [OF this, of sha256 json_dumps now p previous_hash_arg]
  show "\<exists>b s'. new_block sha256 json_dumps now p previous_hash_arg s = (Inr b, s')"
    by (simp add: Let_def)
next
  show "current_transactions (snd (add_transaction sndr rcpt amt s)) =
        current_transactions s @ [\<lparr>sender = sndr, recipient = rcpt, amount = amt\<rparr>]"
    by (rule add_transaction_pool)
next
  show "current_transactions (register_node netloc address s) = current_transactions s"
    by (simp add: register_node_def)
next
  show "current_transactions (snd (resolve_conflicts sha256 json_dumps requests_get iter s)) =
        current_transactions s"
    by (rule resolve_conflicts_pool)
next
  assume "chain s \<noteq> [] \<and> current_transactions s = []
        \<and> proof_of_work sha256 (block_proof (last (chain s))) = Some q"
  then show "\<exists>b s'. mine sha256 json_dumps node_identifier now
              (snd (add_transaction a3 r3 m3 (snd (add_transaction a2 r2 m2
                 (snd (add_transaction a1 r1 m1 s)))))) = Some (Inr b, s')
           \<and> transactions b = [\<lparr>sender = a1, recipient = r1, amount = m1\<rparr>,
                                \<lparr>sender = a2, recipient = r2, amount = m2\<rparr>,
                                \<lparr>sender = a3, recipient = r3, amount = m3\<rparr>,
                                \<lparr>sender = ''0'', recipient = node_identifier, amount = 1\<rparr>]
           \<and> current_transactions s' = []
           \<and> chain s' = chain s @ [b] \<and> nodes s' = nodes s"
    by (intro submit_three_then_mine) simp_all
qed


theorem pool_transfer_witness:
  "chain (init demo_sha256 demo_dumps 0) \<noteq> []
   \<and> current_transactions (init demo_sha256 demo_dumps 0) = []
   \<and> proof_of_work demo_sha256 (block_proof (last (chain (init demo_sha256 demo_dumps 0)))) = Some 2
   \<and> (\<exists>b s'. mine demo_sha256 demo_dumps ''node'' 1
              (snd (add_transaction ''carol'' ''alice'' 3 (snd (add_transaction ''bob'' ''carol'' 2
                 (snd (add_transaction ''alice'' ''bob'' 1 (init demo_sha256 demo_dumps 0)))))))
               = Some (Inr b, s')
           \<and> transactions b = [\<lparr>sender = ''alice'', recipient = ''bob'', amount = 1\<rparr>,
                                \<lparr>sender = ''bob'', recipient = ''carol'', amount = 2\<rparr>,
                                \<lparr>sender = ''carol'', recipient = ''alice'', amount = 3\<rparr>,
                                \<lparr>sender = ''0'', recipient = ''node'', amount = 1\<rparr>]
           \<and> current_transactions s' = []
           \<and> chain s' = [demo_genesis, b] \<and> nodes s' = {})
   \<and> snd (new_block demo_sha256 demo_dumps 1 2 None empty_blockchain) = empty_blockchain"
proof -
  have a: "chain (init demo_sha256 demo_dumps 0) \<noteq> []"
    and b: "current_transactions (init demo_sha256 demo_dumps 0) = []"
    by (simp_all add: demo_init)
  have c: "proof_of_work demo_sha256 (block_proof (last (chain (init demo_sha256 demo_dumps 0)))) = Some 2"
    using demo_pow_100 by (simp add: demo_init demo_genesis_def)
  note t = pool_transfer [where ?sha256.0 = demo_sha256 and json_dumps = demo_dumps
      and s = "init demo_sha256 demo_dumps 0" and q = 2 and now = 1 and node_identifier = "''node''"
      and ?a1.0 = "''alice''" and ?r1.0 = "''bob''" and ?m1.0 = 1
      and ?a2.0 = "''bob''" and ?r2.0 = "''carol''" and ?m2.0 = 2
      and ?a3.0 = "''carol''" and ?r3.0 = "''alice''" and ?m3.0 = 3]
  from t a b c have "\<exists>b s'. mine demo_sha256 demo_dumps ''node'' 1
              (snd (add_transaction ''carol'' ''alice'' 3 (snd (add_transaction ''bob'' ''carol'' 2
                 (snd (add_transaction ''alice'' ''bob'' 1 (init demo_sha256 demo_dumps 0)))))))
               = Some (Inr b, s')
           \<and> transactions b = [\<lparr>sender = ''alice'', recipient = ''bob'', amount = 1\<rparr>,
                                \<lparr>sender = ''bob'', recipient = ''carol'', amount = 2\<rparr>,
                                \<lparr>sender = ''carol'', recipient = ''alice'', amount = 3\<rparr>,
                                \<lparr>sender = ''0'', recipient = ''node'', amount = 1\<rparr>]
           \<and> current_transactions s' = []
           \<and> chain s' = chain (init demo_sha256 demo_dumps 0) @ [b]
           \<and> nodes s' = nodes (init demo_sha256 demo_dumps 0)"
    by blast
  then have d: "\<exists>b s'. mine demo_sha256 demo_dumps ''node'' 1
              (snd (add_transaction ''carol'' ''alice'' 3 (snd (add_transaction ''bob'' ''carol'' 2
                 (snd (add_transaction ''alice'' ''bob'' 1 (init demo_sha256 demo_dumps 0)))))))
               = Some (Inr b, s')
           \<and> transactions b = [\<lparr>sender = ''alice'', recipient = ''bob'', amount = 1\<rparr>,
                                \<lparr>sender = ''bob'', recipient = ''carol'', amount = 2\<rparr>,
                                \<lparr>sender = ''carol'', recipient = ''alice'', amount = 3\<rparr>,
                                \<lparr>sender = ''0'', recipient = ''node'', amount = 1\<rparr>]
           \<and> current_transactions s' = []
           \<and> chain s' = [demo_genesis, b] \<and> nodes s' = {}"
    by (simp add: demo_init)
  have e: "snd (new_block demo_sha256 demo_dumps 1 2 None empty_blockchain) = empty_blockchain"
    by (simp add: new_block_def empty_blockchain_def)
  from a b c d e show ?thesis by blast
qed

section \<open>Consensus\<close>

text \<open>
  Claim C9. The resolver compares the length the peer reports, not the number of blocks it
  sends: a valid chain with fewer blocks than the local one replaces it when the reported
  length is greater than the local number of blocks.
\<close>

theorem resolve_adopts_shorter:
  assumes "iter (nodes s) = [node]"
    and "requests_get (''http://'' @ node @ ''/chain'') = Reply 200 (Payload len c)"
    and "len > int (length (chain s))"
    and "valid_chain sha256 json_dumps c = Inr True"
    and "length c < length (chain s)"
  shows "resolve_conflicts sha256 json_dumps requests_get iter s = (Inr True, s\<lparr>chain := c\<rparr>)
         \<and> length (chain (snd (resolve_conflicts sha256 json_dumps requests_get iter s))) < length (chain s)"
proof -
  from assms(4) have "c \<noteq> []" by (auto simp: valid_chain_def)
  with assms show ?thesis by (simp add: resolve_conflicts_def Let_def)
qed

theorem resolve_adopts_shorter_witness:
  "demo_iter (nodes demo_peered) = [''peer:5000'']
   \<and> demo_get (''http://'' @ ''peer:5000'' @ ''/chain'') = Reply 200 (Payload 3 [demo_stray])
   \<and> 3 > int (length (chain demo_peered))
   \<and> valid_chain demo_sha256 demo_dumps [demo_stray] = Inr True
   \<and> length [demo_stray] < length (chain demo_peered)
   \<and> resolve_conflicts demo_sha256 demo_dumps demo_get demo_iter demo_peered
       = (Inr True, demo_peered\<lparr>chain := [demo_stray]\<rparr>)"
proof -
  have a: "demo_iter (nodes demo_peered) = [''peer:5000'']"
    by (simp add: demo_iter_def demo_peered_def)
  have b: "demo_get (''http://'' @ ''peer:5000'' @ ''/chain'') = Reply 200 (Payload 3 [demo_stray])"
    by (simp add: demo_get_def)
  have c: "3 > int (length (chain demo_peered))"
    by (simp add: demo_peered_def demo_ledger_def)
  have d: "valid_chain demo_sha256 demo_dumps [demo_stray] = Inr True"
    by (simp add: valid_chain_def valid_chain_loop.simps)
  have e: "length [demo_stray] < length (chain demo_peered)"
    by (simp add: demo_peered_def demo_ledger_def)
  from resolve_adopts_shorter
    [of demo_iter demo_peered "''peer:5000''" demo_get 3 "[demo_stray]" demo_sha256 demo_dumps,
      OF a b c d e] a b c d e
  show ?thesis by simp
qed

text \<open>The loop keeps the first candidate of greatest reported length.\<close>

lemma first_max_unfilter:
  fixes l :: int
  assumes "filter (\<lambda>x. l < fst x) T = pre @ y # post"
    and "\<forall>x\<in>set pre. fst x < fst y" and "\<forall>x\<in>set post. fst x \<le> fst y" and "l < fst y"
  shows "\<exists>us vs. T = us @ y # vs \<and> (\<forall>x\<in>set us. fst x < fst y) \<and> (\<forall>x\<in>set vs. fst x \<le> fst y)"
  using assms(1,2)
proof (induction T arbitrary: pre)
  case Nil
  then show ?case by simp
next
  case (Cons t T)
  show ?case
  proof (cases "l < fst t")
    case False
    with Cons.prems have "filter (\<lambda>x. l < fst x) T = pre @ y # post" by simp
    from Cons.IH [OF this Cons.prems(2)] obtain us vs where
      "T = us @ y # vs" "\<forall>x\<in>set us. fst x < fst y" "\<forall>x\<in>set vs. fst x \<le> fst y" by blast
    moreover from False assms(4) have "fst t < fst y" by simp
    ultimately have "t # T = (t # us) @ y # vs \<and> (\<forall>x\<in>set (t # us). fst x < fst y)
        \<and> (\<forall>x\<in>set vs. fst x \<le> fst y)" by simp
    then show ?thesis by blast
  next
    case True
    with Cons.prems have eq: "t # filter (\<lambda>x. l < fst x) T = pre @ y # post" by simp
    show ?thesis
    proof (cases pre)
      case Nil
      with eq have ty: "t = y" and f: "filter (\<lambda>x. l < fst x) T = post" by simp_all
      have "fst x \<le> fst y" if "x \<in> set T" for x
      proof (cases "l < fst x")
        case True
        with that f have "x \<in> set post" by auto
        with assms(3) show ?thesis by blast
      next
        case False
        with assms(4) show ?thesis by simp
      qed
      with ty have "t # T = [] @ y # T \<and> (\<forall>x\<in>set []. fst x < fst y)
        \<and> (\<forall>x\<in>set T. fst x \<le> fst y)" by simp
      then show ?thesis by blast
    next
      case (Cons p pre')
      with eq have tp: "t = p" and f: "filter (\<lambda>x. l < fst x) T = pre' @ y # post" by simp_all
      from Cons.prems(2) Cons have small: "\<forall>x\<in>set pre'. fst x < fst y" and "fst p < fst y" by simp_all
      from Cons.IH [OF f small] obtain us vs where
        "T = us @ y # vs" "\<forall>x\<in>set us. fst x < fst y" "\<forall>x\<in>set vs. fst x \<le> fst y" by blast
      with tp \<open>fst p < fst y\<close> have "t # T = (t # us) @ y # vs \<and> (\<forall>x\<in>set (t # us). fst x < fst y)
        \<and> (\<forall>x\<in>set vs. fst x \<le> fst y)" by simp
      then show ?thesis by blast
    qed
  qed
qed

lemma peer_candidates_Nil: "peer_candidates requests_get [] = []"
  by (simp add: peer_candidates_def)

lemma peer_candidates_Cons:
  "peer_candidates requests_get (node # rest) =
     (case requests_get (''http://'' @ node @ ''/chain'') of
        Unreachable \<Rightarrow> []
      | Reply status_code content \<Rightarrow>
          (case content of
             Payload len c \<Rightarrow> if status_code = 200 then [(len, c)] else []
           | _ \<Rightarrow> [])) @ peer_candidates requests_get rest"
  by (simp add: peer_candidates_def)

lemma valid_chain_True_nonempty: "valid_chain sha256 json_dumps c = Inr True \<Longrightarrow> c \<noteq> []"
  by (auto simp: valid_chain_def)

lemma best_candidate_intro:
  assumes "cs = pre @ (m', c) # post"
    and "\<forall>x\<in>set pre. fst x < m'" and "\<forall>x\<in>set post. fst x \<le> m'"
    and "nc' = Some c" and "c \<noteq> []"
  shows "(cs = [] \<longrightarrow> P)
       \<and> (cs \<noteq> [] \<longrightarrow> (\<exists>pre c post. cs = pre @ (m', c) # post
               \<and> (\<forall>x\<in>set pre. fst x < m') \<and> (\<forall>x\<in>set post. fst x \<le> m')
               \<and> nc' = Some c \<and> c \<noteq> []))"
proof (intro conjI impI)
  assume "cs = []"
  with assms(1) show P by simp
next
  show "\<exists>pre c post. cs = pre @ (m', c) # post
               \<and> (\<forall>x\<in>set pre. fst x < m') \<and> (\<forall>x\<in>set post. fst x \<le> m')
               \<and> nc' = Some c \<and> c \<noteq> []"
    using assms by blast
qed

lemma resolve_loop_best:
  assumes "resolve_loop sha256 json_dumps requests_get ns (m, nc) = Inr (m', nc')"
  shows "(filter (\<lambda>x. m < fst x \<and> valid_chain sha256 json_dumps (snd x) = Inr True)
            (peer_candidates requests_get ns) = [] \<longrightarrow> m' = m \<and> nc' = nc)
       \<and> (filter (\<lambda>x. m < fst x \<and> valid_chain sha256 json_dumps (snd x) = Inr True)
            (peer_candidates requests_get ns) \<noteq> [] \<longrightarrow>
            (\<exists>pre c post.
               filter (\<lambda>x. m < fst x \<and> valid_chain sha256 json_dumps (snd x) = Inr True)
                 (peer_candidates requests_get ns) = pre @ (m', c) # post
               \<and> (\<forall>x\<in>set pre. fst x < m') \<and> (\<forall>x\<in>set post. fst x \<le> m')
               \<and> nc' = Some c \<and> c \<noteq> []))"
  using assms
proof (induction ns arbitrary: m nc)
  case Nil
  then show ?case by (simp add: peer_candidates_Nil)
next
  case (Cons node rest)
  let ?V = "\<lambda>m xs. filter (\<lambda>x. m < fst x \<and> valid_chain sha256 json_dumps (snd x) = Inr True) xs"
  let ?R = "peer_candidates requests_get rest"
  let ?goal = "\<lambda>cs. (cs = [] \<longrightarrow> m' = m \<and> nc' = nc)
       \<and> (cs \<noteq> [] \<longrightarrow> (\<exists>pre c post. cs = pre @ (m', c) # post
               \<and> (\<forall>x\<in>set pre. fst x < m') \<and> (\<forall>x\<in>set post. fst x \<le> m')
               \<and> nc' = Some c \<and> c \<noteq> []))"
  have skip: "?goal (?V m ?R)"
    if "resolve_loop sha256 json_dumps requests_get rest (m, nc) = Inr (m', nc')"
    using Cons.IH [OF that] .
  show ?case
  proof (cases "requests_get (''http://'' @ node @ ''/chain'')")
    case Unreachable
    with Cons.prems show ?thesis by simp
  next
    case (Reply status_code content)
    show ?thesis
    proof (cases "status_code = 200")
      case False
      with Reply Cons.prems have "resolve_loop sha256 json_dumps requests_get rest (m, nc) = Inr (m', nc')"
        by simp
      from skip [OF this] Reply False show ?thesis
        by (simp add: peer_candidates_Cons split: body.splits)
    next
      case True
      show ?thesis
      proof (cases content)
        case NotJson
        with Reply True Cons.prems show ?thesis by simp
      next
        case MissingKey
        with Reply True Cons.prems show ?thesis by simp
      next
        case (Payload len c)
        have cand: "peer_candidates requests_get (node # rest) = (len, c) # ?R"
          using Reply True Payload by (simp add: peer_candidates_Cons)
        show ?thesis
        proof (cases "len > m \<and> valid_chain sha256 json_dumps c = Inr True")
          case False
          have "resolve_loop sha256 json_dumps requests_get rest (m, nc) = Inr (m', nc')"
            using Reply True Payload Cons.prems False
            by (auto split: sum.splits if_splits)
          from skip [OF this] False show ?thesis
            unfolding cand by auto
        next
          case take: True
          then have next_state: "resolve_loop sha256 json_dumps requests_get rest (len, Some c) = Inr (m', nc')"
            using Reply True Payload Cons.prems by simp
          from take have cne: "c \<noteq> []" by (auto dest: valid_chain_True_nonempty)
          have V: "?V m ((len, c) # ?R) = (len, c) # ?V m ?R" using take by simp
          have VV: "?V len ?R = filter (\<lambda>x. len < fst x) (?V m ?R)"
            using take by (auto simp: filter_filter intro!: filter_cong)
          note IH = Cons.IH [OF next_state]
          show ?thesis
          proof (cases "?V len ?R = []")
            case True
            with IH have r: "m' = len" "nc' = Some c" by simp_all
            have "fst x \<le> len" if "x \<in> set (?V m ?R)" for x
            proof (rule ccontr)
              assume "\<not> fst x \<le> len"
              with that have "x \<in> set (filter (\<lambda>x. len < fst x) (?V m ?R))" by simp
              with True VV show False by simp
            qed
            with r cne have "?V m ((len, c) # ?R) = [] @ (m', c) # ?V m ?R"
              "\<forall>x\<in>set []. fst x < m'" "\<forall>x\<in>set (?V m ?R). fst x \<le> m'"
              "nc' = Some c" "c \<noteq> []"
              unfolding V by simp_all
            then show ?thesis unfolding cand by (rule best_candidate_intro)
          next
            case False
            with IH obtain pre c' post where
              dec: "?V len ?R = pre @ (m', c') # post"
              and pre: "\<forall>x\<in>set pre. fst x < m'" and post: "\<forall>x\<in>set post. fst x \<le> m'"
              and r: "nc' = Some c'" "c' \<noteq> []"
              by blast
            have "(m', c') \<in> set (?V len ?R)" unfolding dec by simp
            then have big: "len < m'" by simp
            from dec VV have "filter (\<lambda>x. len < fst x) (?V m ?R) = pre @ (m', c') # post" by simp
            from first_max_unfilter [OF this] pre post big obtain us vs where
              "?V m ?R = us @ (m', c') # vs" "\<forall>x\<in>set us. fst x < m'" "\<forall>x\<in>set vs. fst x \<le> m'"
              by auto
            with big r have "?V m ((len, c) # ?R) = ((len, c) # us) @ (m', c') # vs"
              "\<forall>x\<in>set ((len, c) # us). fst x < m'" "\<forall>x\<in>set vs. fst x \<le> m'"
              "nc' = Some c'" "c' \<noteq> []"
              unfolding V by simp_all
            then show ?thesis unfolding cand by (rule best_candidate_intro)
          qed
        qed
      qed
    qed
  qed
qed

lemma valid_chain_nonempty_returns: "c \<noteq> [] \<Longrightarrow> \<exists>ok. valid_chain sha256 json_dumps c = Inr ok"
  by (cases c) (simp_all add: valid_chain_def)

lemma resolve_loop_returns:
  "responses_well_formed requests_get ns \<Longrightarrow>
   \<exists>r. resolve_loop sha256 json_dumps requests_get ns (m, nc) = Inr r"
proof (induction ns arbitrary: m nc)
  case Nil
  then show ?case by simp
next
  case (Cons node rest)
  from Cons.prems have rest: "responses_well_formed requests_get rest"
    by (simp add: responses_well_formed_def)
  note IH = Cons.IH [OF rest]
  show ?case
  proof (cases "requests_get (''http://'' @ node @ ''/chain'')")
    case Unreachable
    with Cons.prems show ?thesis by (simp add: responses_well_formed_def)
  next
    case (Reply status_code content)
    show ?thesis
    proof (cases "status_code = 200")
      case False
      with Reply IH show ?thesis by simp
    next
      case True
      with Reply Cons.prems obtain len c where p: "content = Payload len c" and ne: "c \<noteq> []"
        by (auto simp: responses_well_formed_def split: body.splits)
      from valid_chain_nonempty_returns [OF ne] obtain ok
        where "valid_chain sha256 json_dumps c = Inr ok" by blast
      with Reply True p IH [of m nc] IH [of len "Some c"] show ?thesis by simp
    qed
  qed
qed

lemma resolve_conflicts_raises_unchanged:
  "resolve_conflicts sha256 json_dumps requests_get iter s = (Inl e, s') \<Longrightarrow> s' = s"
  by (auto simp: resolve_conflicts_def Let_def split: sum.splits prod.splits option.splits if_splits)

text \<open>
  Claim C1, as the code has it. Length is the length a peer reports, not the number of
  blocks it sends. When every peer answers, and every answer with status 200 carries both
  keys and a chain that is not empty, \<open>resolve_conflicts\<close> returns. Whenever it returns,
  take the candidates whose reported length is greater than the number of local blocks and
  whose chain passes the validator. When there is none the result is false and the ledger
  is as before; a candidate whose reported length is the number of local blocks is not
  among them. Otherwise the result is true and the chain is replaced by the candidate of
  greatest reported length, the first one visited among equals. When \<open>resolve_conflicts\<close>
  raises, it reports neither, and the ledger is as before.
\<close>

theorem resolve_conflicts_longest_valid:
  "(responses_well_formed requests_get (iter (nodes s)) \<longrightarrow>
      (\<exists>replaced s'. resolve_conflicts sha256 json_dumps requests_get iter s = (Inr replaced, s')))
   \<and> (\<forall>replaced s'.
        resolve_conflicts sha256 json_dumps requests_get iter s = (Inr replaced, s') \<longrightarrow>
        (let cs = filter (\<lambda>(len, c). int (length (chain s)) < len
                                  \<and> valid_chain sha256 json_dumps c = Inr True)
                    (peer_candidates requests_get (iter (nodes s)))
         in (cs = [] \<longrightarrow> \<not> replaced \<and> s' = s)
          \<and> (cs \<noteq> [] \<longrightarrow> replaced
                \<and> (\<exists>pre len c post. cs = pre @ (len, c) # post
                      \<and> (\<forall>x\<in>set pre. fst x < len) \<and> (\<forall>x\<in>set post. fst x \<le> len)
                      \<and> s' = s\<lparr>chain := c\<rparr>))))
   \<and> (\<forall>e s'. resolve_conflicts sha256 json_dumps requests_get iter s = (Inl e, s') \<longrightarrow> s' = s)"
proof (intro conjI allI impI)
  assume "responses_well_formed requests_get (iter (nodes s))"
  from resolve_loop_returns [OF this, of sha256 json_dumps "int (length (chain s))" None]
  show "\<exists>replaced s'. resolve_conflicts sha256 json_dumps requests_get iter s = (Inr replaced, s')"
    by (auto simp: resolve_conflicts_def Let_def split: option.splits)
next
  fix e s' assume "resolve_conflicts sha256 json_dumps requests_get iter s = (Inl e, s')"
  then show "s' = s" by (rule resolve_conflicts_raises_unchanged)
next
  fix replaced s'
  assume res: "resolve_conflicts sha256 json_dumps requests_get iter s = (Inr replaced, s')"
  let ?cs = "filter (\<lambda>x. int (length (chain s)) < fst x
                                  \<and> valid_chain sha256 json_dumps (snd x) = Inr True)
                    (peer_candidates requests_get (iter (nodes s)))"
  from res obtain m' nc' where
    loop: "resolve_loop sha256 json_dumps requests_get (iter (nodes s)) (int (length (chain s)), None)
             = Inr (m', nc')"
    and fin: "(replaced, s') = (case nc' of None \<Rightarrow> (False, s)
                 | Some c \<Rightarrow> if c \<noteq> [] then (True, s\<lparr>chain := c\<rparr>) else (False, s))"
    by (auto simp: resolve_conflicts_def Let_def split: sum.splits prod.splits option.splits if_splits)
  note best = resolve_loop_best [OF loop]
  have a: "\<not> replaced \<and> s' = s" if "?cs = []"
    using best that fin by simp
  have b: "replaced \<and> (\<exists>pre len c post. ?cs = pre @ (len, c) # post
                      \<and> (\<forall>x\<in>set pre. fst x < len) \<and> (\<forall>x\<in>set post. fst x \<le> len)
                      \<and> s' = s\<lparr>chain := c\<rparr>)" if "?cs \<noteq> []"
  proof -
    from best that obtain pre c post where
      "?cs = pre @ (m', c) # post" "\<forall>x\<in>set pre. fst x < m'" "\<forall>x\<in>set post. fst x \<le> m'"
      "nc' = Some c" "c \<noteq> []" by blast
    moreover with fin have "replaced" "s' = s\<lparr>chain := c\<rparr>" by simp_all
    ultimately show ?thesis by blast
  qed
  from a b show "let cs = filter (\<lambda>(len, c). int (length (chain s)) < len
                                  \<and> valid_chain sha256 json_dumps c = Inr True)
                    (peer_candidates requests_get (iter (nodes s)))
         in (cs = [] \<longrightarrow> \<not> replaced \<and> s' = s)
          \<and> (cs \<noteq> [] \<longrightarrow> replaced
                \<and> (\<exists>pre len c post. cs = pre @ (len, c) # post
                      \<and> (\<forall>x\<in>set pre. fst x < len) \<and> (\<forall>x\<in>set post. fst x \<le> len)
                      \<and> s' = s\<lparr>chain := c\<rparr>))"
    unfolding Let_def case_prod_unfold by blast
qed

lemma demo_valid_stray: "valid_chain demo_sha256 demo_dumps [demo_stray] = Inr True"
  by (simp add: valid_chain_def valid_chain_loop.simps)

lemma demo_valid_long: "valid_chain demo_sha256 demo_dumps [demo_genesis, demo_block2, demo_block3] = Inr True"
  by (simp add: valid_chain_def valid_chain_loop.simps demo_genesis_def demo_block2_def
      demo_block3_def demo_eval)

lemma demo_resolve_three:
  "resolve_conflicts demo_sha256 demo_dumps demo_get demo_iter demo_three_peers
     = (Inr True, demo_three_peers\<lparr>chain := [demo_stray]\<rparr>)"
  by (simp add: resolve_conflicts_def demo_three_peers_def demo_ledger_def demo_iter_def
      demo_get_def demo_valid_stray Let_def)

theorem resolve_conflicts_longest_valid_witness:
  "responses_well_formed demo_get (demo_iter (nodes demo_three_peers))
   \<and> resolve_conflicts demo_sha256 demo_dumps demo_get demo_iter demo_three_peers
       = (Inr True, demo_three_peers\<lparr>chain := [demo_stray]\<rparr>)
   \<and> filter (\<lambda>(len, c). int (length (chain demo_three_peers)) < len
                        \<and> valid_chain demo_sha256 demo_dumps c = Inr True)
        (peer_candidates demo_get (demo_iter (nodes demo_three_peers)))
       = [(3, [demo_stray]), (3, [demo_genesis, demo_block2, demo_block3])]
   \<and> (\<exists>pre len c post.
         [(3::int, [demo_stray]), (3, [demo_genesis, demo_block2, demo_block3])] = pre @ (len, c) # post
         \<and> (\<forall>x\<in>set pre. fst x < len) \<and> (\<forall>x\<in>set post. fst x \<le> len)
         \<and> demo_three_peers\<lparr>chain := [demo_stray]\<rparr> = demo_three_peers\<lparr>chain := c\<rparr>)"
proof -
  have wf: "responses_well_formed demo_get (demo_iter (nodes demo_three_peers))"
    by (simp add: responses_well_formed_def demo_three_peers_def demo_iter_def demo_get_def)
  have cs: "filter (\<lambda>(len, c). int (length (chain demo_three_peers)) < len
                        \<and> valid_chain demo_sha256 demo_dumps c = Inr True)
        (peer_candidates demo_get (demo_iter (nodes demo_three_peers)))
       = [(3, [demo_stray]), (3, [demo_genesis, demo_block2, demo_block3])]"
    by (simp add: peer_candidates_def demo_three_peers_def demo_ledger_def demo_iter_def
        demo_get_def demo_valid_stray demo_valid_long)
  from resolve_conflicts_longest_valid
    [of demo_get demo_iter demo_three_peers demo_sha256 demo_dumps] demo_resolve_three
  have "let cs = filter (\<lambda>(len, c). int (length (chain demo_three_peers)) < len
                                  \<and> valid_chain demo_sha256 demo_dumps c = Inr True)
                    (peer_candidates demo_get (demo_iter (nodes demo_three_peers)))
         in cs \<noteq> [] \<longrightarrow>
                (\<exists>pre len c post. cs = pre @ (len, c) # post
                      \<and> (\<forall>x\<in>set pre. fst x < len) \<and> (\<forall>x\<in>set post. fst x \<le> len)
                      \<and> demo_three_peers\<lparr>chain := [demo_stray]\<rparr> = demo_three_peers\<lparr>chain := c\<rparr>)"
    unfolding Let_def by blast
  then have "\<exists>pre len c post.
         [(3::int, [demo_stray]), (3, [demo_genesis, demo_block2, demo_block3])] = pre @ (len, c) # post
         \<and> (\<forall>x\<in>set pre. fst x < len) \<and> (\<forall>x\<in>set post. fst x \<le> len)
         \<and> demo_three_peers\<lparr>chain := [demo_stray]\<rparr> = demo_three_peers\<lparr>chain := c\<rparr>"
    unfolding Let_def cs by simp
  with wf cs demo_resolve_three show ?thesis by blast
qed

text \<open>
  Claim C1 as stated fails in three ways. After a valid candidate of reported length 3 the
  next peer cannot be reached: \<open>resolve_conflicts\<close> raises and reports neither true nor
  false. With three peers the chain adopted has one block, though a valid chain of three
  blocks is among the answers and the local chain has two. And a peer that sends two
  blocks, as many as the local chain has, with a reported length of 3, has its chain
  adopted.
\<close>

theorem resolve_conflicts_longest_counterexample:
  "resolve_conflicts demo_sha256 demo_dumps demo_get demo_iter demo_long_down
     = (Inl ConnectionError, demo_long_down)
   \<and> demo_iter (nodes demo_long_down) = [''long:5000'', ''down:5000'']
   \<and> demo_get ''http://long:5000/chain'' = Reply 200 (Payload 3 [demo_genesis, demo_block2, demo_block3])
   \<and> valid_chain demo_sha256 demo_dumps [demo_genesis, demo_block2, demo_block3] = Inr True
   \<and> int (length (chain demo_long_down)) < 3
   \<and> resolve_conflicts demo_sha256 demo_dumps demo_get demo_iter demo_three_peers
       = (Inr True, demo_three_peers\<lparr>chain := [demo_stray]\<rparr>)
   \<and> length [demo_stray] < length (chain demo_three_peers)
   \<and> length (chain demo_three_peers) < length [demo_genesis, demo_block2, demo_block3]
   \<and> resolve_conflicts demo_sha256 demo_dumps demo_echo demo_iter demo_peered
       = (Inr True, demo_peered\<lparr>chain := [demo_genesis, demo_block2]\<rparr>)
   \<and> length [demo_genesis, demo_block2] = length (chain demo_peered)"
proof -
  have valid2: "valid_chain demo_sha256 demo_dumps [demo_genesis, demo_block2] = Inr True"
    by (simp add: valid_chain_def valid_chain_loop.simps demo_genesis_def demo_block2_def demo_eval)
  have a: "resolve_conflicts demo_sha256 demo_dumps demo_get demo_iter demo_long_down
     = (Inl ConnectionError, demo_long_down)"
    by (simp add: resolve_conflicts_def demo_long_down_def demo_ledger_def demo_iter_def
        demo_get_def demo_valid_long Let_def)
  have b: "demo_iter (nodes demo_long_down) = [''long:5000'', ''down:5000'']"
    by (simp add: demo_long_down_def demo_iter_def)
  have c: "demo_get ''http://long:5000/chain'' = Reply 200 (Payload 3 [demo_genesis, demo_block2, demo_block3])"
    by (simp add: demo_get_def)
  have d: "int (length (chain demo_long_down)) < 3"
    by (simp add: demo_long_down_def demo_ledger_def)
  have e: "length [demo_stray] < length (chain demo_three_peers)"
    "length (chain demo_three_peers) < length [demo_genesis, demo_block2, demo_block3]"
    by (simp_all add: demo_three_peers_def demo_ledger_def)
  have f: "resolve_conflicts demo_sha256 demo_dumps demo_echo demo_iter demo_peered
       = (Inr True, demo_peered\<lparr>chain := [demo_genesis, demo_block2]\<rparr>)"
    by (simp add: resolve_conflicts_def demo_peered_def demo_ledger_def demo_iter_def
        demo_echo_def valid2 Let_def)
  have g: "length [demo_genesis, demo_block2] = length (chain demo_peered)"
    by (simp add: demo_peered_def demo_ledger_def)
  from a b c demo_valid_long d demo_resolve_three e f g show ?thesis by simp
qed

lemma resolve_loop_append:
  "resolve_loop sha256 json_dumps requests_get (xs @ ys) acc =
     (case resolve_loop sha256 json_dumps requests_get xs acc of
        Inl e \<Rightarrow> Inl e
      | Inr acc' \<Rightarrow> resolve_loop sha256 json_dumps requests_get ys acc')"
proof (induction xs arbitrary: acc)
  case Nil
  show ?case by (cases acc) simp
next
  case (Cons x xs)
  show ?case
    by (cases acc) (simp add: Cons.IH split: response.splits body.splits sum.splits)
qed

lemma resolve_loop_skip:
  assumes "requests_get (''http://'' @ node @ ''/chain'') = Reply status_code content"
    and "status_code \<noteq> 200"
  shows "resolve_loop sha256 json_dumps requests_get (pre @ node # post) acc =
         resolve_loop sha256 json_dumps requests_get (pre @ post) acc"
proof -
  have "resolve_loop sha256 json_dumps requests_get (node # post) acc' =
        resolve_loop sha256 json_dumps requests_get post acc'" for acc'
    using assms by (cases acc') simp
  then show ?thesis by (simp add: resolve_loop_append split: sum.splits)
qed

lemma resolve_loop_raises:
  assumes "node \<in> set ns"
    and "requests_get (''http://'' @ node @ ''/chain'') = Unreachable
         \<or> requests_get (''http://'' @ node @ ''/chain'') = Reply 200 NotJson
         \<or> requests_get (''http://'' @ node @ ''/chain'') = Reply 200 MissingKey"
  shows "\<exists>e. resolve_loop sha256 json_dumps requests_get ns acc = Inl e"
proof -
  from assms(1) obtain pre post where ns: "ns = pre @ node # post"
    by (auto simp: in_set_conv_decomp)
  have "\<exists>e. resolve_loop sha256 json_dumps requests_get (node # post) acc' = Inl e" for acc'
    using assms(2) by (cases acc') auto
  then show ?thesis
    unfolding ns resolve_loop_append by (auto split: sum.splits)
qed

text \<open>
  Claim C3, as the code has it. A peer that answers with a status other than 200 is passed
  over: the outcome is the one without that peer. A peer that cannot be reached, or that
  answers 200 with a body that is not JSON or lacks a key, makes \<open>resolve_conflicts\<close>
  raise, and the ledger is as before.
\<close>

theorem resolve_skips_other_status:
  "(\<forall>pre node post status_code content.
       iter (nodes s) = pre @ node # post
       \<and> requests_get (''http://'' @ node @ ''/chain'') = Reply status_code content
       \<and> status_code \<noteq> 200 \<longrightarrow>
       resolve_conflicts sha256 json_dumps requests_get iter s =
       resolve_conflicts sha256 json_dumps requests_get (\<lambda>S. pre @ post) s)
   \<and> (\<forall>node. node \<in> set (iter (nodes s))
         \<and> (requests_get (''http://'' @ node @ ''/chain'') = Unreachable
            \<or> requests_get (''http://'' @ node @ ''/chain'') = Reply 200 NotJson
            \<or> requests_get (''http://'' @ node @ ''/chain'') = Reply 200 MissingKey) \<longrightarrow>
       (\<exists>e. resolve_conflicts sha256 json_dumps requests_get iter s = (Inl e, s)))"
proof (intro conjI allI impI)
  fix pre node post status_code content
  assume a: "iter (nodes s) = pre @ node # post
       \<and> requests_get (''http://'' @ node @ ''/chain'') = Reply status_code content
       \<and> status_code \<noteq> 200"
  then have "resolve_loop sha256 json_dumps requests_get (pre @ node # post) acc =
         resolve_loop sha256 json_dumps requests_get (pre @ post) acc" for acc
    by (intro resolve_loop_skip) auto
  with a show "resolve_conflicts sha256 json_dumps requests_get iter s =
       resolve_conflicts sha256 json_dumps requests_get (\<lambda>S. pre @ post) s"
    by (simp add: resolve_conflicts_def)
next
  fix node
  assume a: "node \<in> set (iter (nodes s))
         \<and> (requests_get (''http://'' @ node @ ''/chain'') = Unreachable
            \<or> requests_get (''http://'' @ node @ ''/chain'') = Reply 200 NotJson
            \<or> requests_get (''http://'' @ node @ ''/chain'') = Reply 200 MissingKey)"
  then obtain e where "resolve_loop sha256 json_dumps requests_get (iter (nodes s))
      (int (length (chain s)), None) = Inl e"
    using resolve_loop_raises [of node "iter (nodes s)" requests_get sha256 json_dumps] by blast
  then show "\<exists>e. resolve_conflicts sha256 json_dumps requests_get iter s = (Inl e, s)"
    by (simp add: resolve_conflicts_def)
qed

text \<open>
  Claim C3 as stated fails: with one registered peer that cannot be reached, the exception
  of \<open>requests.get\<close> leaves \<open>resolve_conflicts\<close>.
\<close>

theorem resolve_unreachable_counterexample:
  "resolve_conflicts demo_sha256 demo_dumps demo_get demo_iter demo_isolated
     = (Inl ConnectionError, demo_isolated)
   \<and> demo_get ''http://down:5000/chain'' = Unreachable
   \<and> nodes demo_isolated = {''down:5000''}"
  by (simp add: resolve_conflicts_def demo_isolated_def demo_iter_def demo_get_def)

theorem resolve_skips_other_status_witness:
  "demo_iter (nodes demo_two_peers) = [] @ ''idle:5000'' # [''peer:5000'']
   \<and> demo_get (''http://'' @ ''idle:5000'' @ ''/chain'') = Reply 503 NotJson
   \<and> (503::int) \<noteq> 200
   \<and> resolve_conflicts demo_sha256 demo_dumps demo_get demo_iter demo_two_peers
       = (Inr True, demo_two_peers\<lparr>chain := [demo_stray]\<rparr>)
   \<and> resolve_conflicts demo_sha256 demo_dumps demo_get (\<lambda>S. [] @ [''peer:5000'']) demo_two_peers
       = (Inr True, demo_two_peers\<lparr>chain := [demo_stray]\<rparr>)
   \<and> ''down:5000'' \<in> set (demo_iter (nodes demo_isolated))
   \<and> demo_get (''http://'' @ ''down:5000'' @ ''/chain'') = Unreachable
   \<and> (\<exists>e. resolve_conflicts demo_sha256 demo_dumps demo_get demo_iter demo_isolated
            = (Inl e, demo_isolated))"
proof -
  have a: "demo_iter (nodes demo_two_peers) = [] @ ''idle:5000'' # [''peer:5000'']"
    by (simp add: demo_two_peers_def demo_iter_def)
  have b: "demo_get (''http://'' @ ''idle:5000'' @ ''/chain'') = Reply 503 NotJson"
    by (simp add: demo_get_def)
  have c: "resolve_conflicts demo_sha256 demo_dumps demo_get (\<lambda>S. [] @ [''peer:5000'']) demo_two_peers
       = (Inr True, demo_two_peers\<lparr>chain := [demo_stray]\<rparr>)"
    by (simp add: resolve_conflicts_def demo_two_peers_def demo_ledger_def demo_get_def
        demo_valid_stray Let_def)
  have d: "''down:5000'' \<in> set (demo_iter (nodes demo_isolated))"
    by (simp add: demo_isolated_def demo_iter_def)
  have e: "demo_get (''http://'' @ ''down:5000'' @ ''/chain'') = Unreachable"
    by (simp add: demo_get_def)
  note t = resolve_skips_other_status [of demo_iter _ demo_get demo_sha256 demo_dumps]
  from t [of demo_two_peers, THEN conjunct1, rule_format,
      of "[]" "''idle:5000''" "[''peer:5000'']" 503 NotJson] a b
  have "resolve_conflicts demo_sha256 demo_dumps demo_get demo_iter demo_two_peers =
       resolve_conflicts demo_sha256 demo_dumps demo_get (\<lambda>S. [] @ [''peer:5000'']) demo_two_peers"
    by simp
  with c have f: "resolve_conflicts demo_sha256 demo_dumps demo_get demo_iter demo_two_peers
       = (Inr True, demo_two_peers\<lparr>chain := [demo_stray]\<rparr>)" by simp
  from t [of demo_isolated, THEN conjunct2, rule_format, of "''down:5000''"] d e
  have g: "\<exists>e. resolve_conflicts demo_sha256 demo_dumps demo_get demo_iter demo_isolated
            = (Inl e, demo_isolated)" by simp
  from a b c d e f g show ?thesis by simp
qed

end
